theory Spec2Isabelle
  imports Main "HOL-Library.Sublist"
begin

section \<open>JavaScript values\<close>

text \<open>
  A JavaScript string is a sequence of UTF-16 code units and \<open>.length\<close> counts them,
  so a string is modelled as the list of its code units. \<open>js\<close> turns a HOL string
  literal (code units below 256) into that representation.
\<close>

type_synonym js_string = "nat list"

definition js :: "string \<Rightarrow> js_string" where
  "js s = map of_char s"

text \<open>
  The values the store receives come out of \<open>req.json()\<close>: \<open>null\<close>, booleans,
  numbers, strings, arrays and objects; \<open>Undefined\<close> is what reading a missing property
  (or a missing \<open>content\<close>, \<open>origin\<close> or \<open>meta\<close> key) gives. Numbers are restricted
  to integers (a double is not modelled); an object lists its own properties, each key
  once. \<open>Fn n\<close> is a built-in function object whose \<open>length\<close> is \<open>n\<close>: the only one the
  program can reach is \<open>Array.prototype.values\<close>.
\<close>

datatype jsval =
    Undefined
  | Null
  | Bool bool
  | Num int
  | Str js_string
  | Arr "jsval list"
  | Obj "(js_string \<times> jsval) list"
  | Fn nat

datatype error = TypeError

text \<open>
  Property read \<open>v.k\<close>, for the property names this program reads (\<open>color\<close>,
  \<open>label\<close>, \<open>size\<close>, \<open>name\<close>, \<open>values\<close>, \<open>length\<close>, ...). On \<open>null\<close> and
  \<open>undefined\<close> it throws a TypeError; on an object it is the own property, or
  \<open>undefined\<close>; on an array or a string \<open>length\<close> is the number of elements, and
  \<open>values\<close> of an array is the built-in iterator method; every other read of a
  primitive gives \<open>undefined\<close>.
\<close>

fun get_prop :: "jsval \<Rightarrow> js_string \<Rightarrow> error + jsval" where
  "get_prop Undefined k = Inl TypeError"
| "get_prop Null k = Inl TypeError"
| "get_prop (Obj kvs) k = Inr (case map_of kvs k of Some v \<Rightarrow> v | None \<Rightarrow> Undefined)"
| "get_prop (Arr xs) k =
     Inr (if k = js ''length'' then Num (int (length xs))
          else if k = js ''values'' then Fn 0
          else Undefined)"
| "get_prop (Str cs) k = Inr (if k = js ''length'' then Num (int (length cs)) else Undefined)"
| "get_prop (Fn n) k = Inr (if k = js ''length'' then Num (int n) else Undefined)"
| "get_prop (Bool b) k = Inr Undefined"
| "get_prop (Num n) k = Inr Undefined"

text \<open>Truthiness (\<open>ToBoolean\<close>), as used by \<open>if (payload.screen)\<close> and \<open>||\<close>.\<close>

fun truthy :: "jsval \<Rightarrow> bool" where
  "truthy Undefined = False"
| "truthy Null = False"
| "truthy (Bool b) = b"
| "truthy (Num n) = (n \<noteq> 0)"
| "truthy (Str cs) = (cs \<noteq> [])"
| "truthy (Arr xs) = True"
| "truthy (Obj kvs) = True"
| "truthy (Fn n) = True"

subsection \<open>Number to string\<close>

text \<open>
  \<open>String(n)\<close> and \<open>`${n}`\<close> for an integer \<open>n\<close> (plain decimal, which is what
  JavaScript prints below \<open>10^21\<close>).
\<close>

fun show_nat :: "nat \<Rightarrow> js_string" where
  "show_nat n = (if n < 10 then [48 + n] else show_nat (n div 10) @ [48 + n mod 10])"

declare show_nat.simps [simp del]

definition show_int :: "int \<Rightarrow> js_string" where
  "show_int i = (if i < 0 then js ''-'' @ show_nat (nat (- i)) else show_nat (nat i))"

section \<open>Protocol types (types.ts)\<close>

text \<open>
  Record fields are global constants in HOL, so the fields of each record carry a
  prefix: \<open>pl_\<close> for \<open>RayPayload\<close>, \<open>rq_\<close> for \<open>RayRequest\<close>, \<open>sp_\<close> for
  \<open>StoredPayload\<close>. The content of an event is whatever value the client sent:
  the \<open>as\<close> casts of the source check nothing. An event itself is an object with a
  string \<open>type\<close>, and a request has a string \<open>uuid\<close>, as the interfaces declare.
  The server checks that \<open>uuid\<close> is there and that \<open>payloads\<close> is an array, and
  nothing about the elements of that array: an element is an event, or \<open>null\<close>, which
  is \<open>None\<close> here. (An event whose \<open>content\<close> or \<open>origin\<close> is missing has
  \<open>Undefined\<close> there.)
\<close>

record RayPayload =
  pl_type :: js_string
  pl_content :: jsval
  pl_origin :: jsval

record RayRequest =
  rq_uuid :: js_string
  rq_payloads :: "RayPayload option list"
  rq_meta :: jsval

text \<open>
  \<open>sp_timestamp\<close> is the time value of the \<open>Date\<close> object. The optional fields
  \<open>color\<close>, \<open>label\<close>, \<open>size\<close> are \<open>Undefined\<close> while unset; \<open>hidden\<close> is only ever
  unset or \<open>true\<close> and only read through \<open>!p.hidden\<close>, so it is a boolean that is
  \<open>False\<close> while unset.
\<close>

record StoredPayload =
  sp_id :: js_string
  sp_uuid :: js_string
  sp_type :: js_string
  sp_content :: jsval
  sp_origin :: jsval
  sp_meta :: jsval
  sp_timestamp :: int
  sp_color :: jsval
  sp_label :: jsval
  sp_size :: jsval
  sp_screen :: jsval
  sp_hidden :: bool

section \<open>The payload store (store.ts)\<close>

definition MAX_PAYLOADS :: nat where
  "MAX_PAYLOADS = 1000"

text \<open>
  The private fields of \<open>PayloadStore\<close>. The listeners are callbacks of the
  presentation layer; what the store does to them is recorded in \<open>notifications\<close>, the
  number of times \<open>notify()\<close> has run. \<open>payloadCounter\<close> is a natural number (the
  JavaScript number is exact below \<open>2^53\<close>).
\<close>

record PayloadStore =
  payloads :: "StoredPayload list"
  currentScreen :: jsval
  payloadCounter :: nat
  notifications :: nat

definition new_store :: PayloadStore where
  "new_store = \<lparr> payloads = [], currentScreen = Str (js ''default''), payloadCounter = 0,
     notifications = 0 \<rparr>"

definition notify :: "PayloadStore \<Rightarrow> PayloadStore" where
  "notify s = s \<lparr> notifications := Suc (notifications s) \<rparr>"

definition getPayloads :: "PayloadStore \<Rightarrow> StoredPayload list" where
  "getPayloads s = filter (\<lambda>p. \<not> sp_hidden p) (payloads s)"

definition getAllPayloads :: "PayloadStore \<Rightarrow> StoredPayload list" where
  "getAllPayloads s = payloads s"

definition getPayloadsByScreen :: "PayloadStore \<Rightarrow> js_string \<Rightarrow> StoredPayload list" where
  "getPayloadsByScreen s screen =
     filter (\<lambda>p. sp_screen p = Str screen \<and> \<not> sp_hidden p) (payloads s)"

definition getCurrentScreen :: "PayloadStore \<Rightarrow> jsval" where
  "getCurrentScreen s = currentScreen s"

text \<open>
  \<open>applyToPayload\<close>: the loop \<open>for (let i = length - 1; i >= 0; i--)\<close>.
  \<open>applyFrom n\<close> is the loop with \<open>i = n - 1\<close> still to be looked at. The modifier
  may throw; then nothing has been assigned.
\<close>

fun applyFrom ::
  "nat \<Rightarrow> js_string \<Rightarrow> (StoredPayload \<Rightarrow> error + StoredPayload) \<Rightarrow> StoredPayload list
     \<Rightarrow> error + StoredPayload list" where
  "applyFrom 0 uuid modifier ps = Inr ps"
| "applyFrom (Suc i) uuid modifier ps =
     (if sp_uuid (ps ! i) = uuid then
        (case modifier (ps ! i) of
           Inl e \<Rightarrow> Inl e
         | Inr p' \<Rightarrow> Inr (ps[i := p']))
      else applyFrom i uuid modifier ps)"

definition applyToPayload ::
  "js_string \<Rightarrow> (StoredPayload \<Rightarrow> error + StoredPayload) \<Rightarrow> PayloadStore
     \<Rightarrow> error + PayloadStore" where
  "applyToPayload uuid modifier s =
     (case applyFrom (length (payloads s)) uuid modifier (payloads s) of
        Inl e \<Rightarrow> Inl e
      | Inr ps \<Rightarrow> Inr (s \<lparr> payloads := ps \<rparr>))"

text \<open>
  The three modifiers \<open>(p) => { p.color = colorContent.color; }\<close> and its siblings:
  the property read comes first and throws when the content is \<open>null\<close> or missing.
\<close>

definition set_color :: "jsval \<Rightarrow> StoredPayload \<Rightarrow> error + StoredPayload" where
  "set_color content p =
     (case get_prop content (js ''color'') of
        Inl e \<Rightarrow> Inl e
      | Inr v \<Rightarrow> Inr (p \<lparr> sp_color := v \<rparr>))"

definition set_label :: "jsval \<Rightarrow> StoredPayload \<Rightarrow> error + StoredPayload" where
  "set_label content p =
     (case get_prop content (js ''label'') of
        Inl e \<Rightarrow> Inl e
      | Inr v \<Rightarrow> Inr (p \<lparr> sp_label := v \<rparr>))"

definition set_size :: "jsval \<Rightarrow> StoredPayload \<Rightarrow> error + StoredPayload" where
  "set_size content p =
     (case get_prop content (js ''size'') of
        Inl e \<Rightarrow> Inl e
      | Inr v \<Rightarrow> Inr (p \<lparr> sp_size := v \<rparr>))"

definition set_hidden :: "StoredPayload \<Rightarrow> error + StoredPayload" where
  "set_hidden p = Inr (p \<lparr> sp_hidden := True \<rparr>)"

text \<open>
  \<open>processPayload\<close>. Its first line, \<open>const { type, content, origin } = payload\<close>,
  throws a \<open>TypeError\<close> when the element is \<open>null\<close>. \<open>now\<close> is what \<open>Date.now()\<close>
  reads when the identifier is built. A throw leaves the store as it was before the
  event: it happens in the destructuring or in a property read, before any assignment.
\<close>

definition processPayload ::
  "js_string \<Rightarrow> RayPayload option \<Rightarrow> jsval \<Rightarrow> int \<Rightarrow> int \<Rightarrow> PayloadStore
     \<Rightarrow> error + PayloadStore" where
  "processPayload uuid payload meta timestamp now s =
     (case payload of
        None \<Rightarrow> Inl TypeError
      | Some ev \<Rightarrow>
          (let type = pl_type ev; content = pl_content ev; origin = pl_origin ev in
           if type = js ''color'' then applyToPayload uuid (set_color content) s
           else if type = js ''label'' then applyToPayload uuid (set_label content) s
           else if type = js ''size'' then applyToPayload uuid (set_size content) s
           else if type = js ''new_screen'' then
             (case get_prop content (js ''name'') of
                Inl e \<Rightarrow> Inl e
              | Inr v \<Rightarrow> Inr (s \<lparr> currentScreen := v \<rparr>))
           else if type = js ''clear_all'' then Inr (s \<lparr> payloads := [] \<rparr>)
           else if type = js ''hide'' then applyToPayload uuid set_hidden s
           else if type = js ''remove'' then
             Inr (s \<lparr> payloads := filter (\<lambda>p. sp_uuid p \<noteq> uuid) (payloads s) \<rparr>)
           else if type = js ''show_app'' \<or> type = js ''hide_app'' \<or> type = js ''confetti'' then Inr s
           else
             Inr (s \<lparr> payloads := payloads s @
                      [\<lparr> sp_id = show_int now @ js ''-'' @ show_nat (payloadCounter s),
                         sp_uuid = uuid, sp_type = type, sp_content = content, sp_origin = origin,
                         sp_meta = meta, sp_timestamp = timestamp, sp_color = Undefined,
                         sp_label = Undefined, sp_size = Undefined, sp_screen = currentScreen s,
                         sp_hidden = False \<rparr>],
                    payloadCounter := Suc (payloadCounter s) \<rparr>)))"

text \<open>
  The loop of \<open>addRequest\<close> over \<open>request.payloads\<close>; \<open>clock i\<close> is the reading of
  \<open>Date.now()\<close> while the event at position \<open>i\<close> is processed. When an event throws,
  the loop is left with the store as the earlier events made it.
\<close>

fun processAll ::
  "js_string \<Rightarrow> jsval \<Rightarrow> int \<Rightarrow> (nat \<Rightarrow> int) \<Rightarrow> nat \<Rightarrow> RayPayload option list \<Rightarrow> PayloadStore
     \<Rightarrow> (error \<times> PayloadStore) + PayloadStore" where
  "processAll uuid meta timestamp clock i [] s = Inr s"
| "processAll uuid meta timestamp clock i (payload # rest) s =
     (case processPayload uuid payload meta timestamp (clock i) s of
        Inl e \<Rightarrow> Inl (e, s)
      | Inr s' \<Rightarrow> processAll uuid meta timestamp clock (Suc i) rest s')"

text \<open>\<open>xs.slice(-n)\<close> for \<open>n > 0\<close>: the last \<open>n\<close> elements, or all of them.\<close>

definition slice_last :: "nat \<Rightarrow> 'a list \<Rightarrow> 'a list" where
  "slice_last n xs = drop (length xs - n) xs"

definition trim :: "PayloadStore \<Rightarrow> PayloadStore" where
  "trim s =
     (if length (payloads s) > MAX_PAYLOADS
      then s \<lparr> payloads := slice_last MAX_PAYLOADS (payloads s) \<rparr>
      else s)"

text \<open>
  \<open>addRequest\<close>: \<open>timestamp\<close> is the value of \<open>new Date()\<close> in its first line. The
  result is \<open>Inr\<close> the store when the call returns, and \<open>Inl\<close> the error with the
  store as the throw left it otherwise (neither trimmed nor notified).
\<close>

definition addRequest ::
  "int \<Rightarrow> (nat \<Rightarrow> int) \<Rightarrow> RayRequest \<Rightarrow> PayloadStore \<Rightarrow> (error \<times> PayloadStore) + PayloadStore" where
  "addRequest timestamp clock request s =
     (case processAll (rq_uuid request) (rq_meta request) timestamp clock 0
             (rq_payloads request) s of
        Inl err \<Rightarrow> Inl err
      | Inr s' \<Rightarrow> Inr (notify (trim s')))"

definition clear :: "PayloadStore \<Rightarrow> PayloadStore" where
  "clear s = notify (s \<lparr> payloads := [] \<rparr>)"

definition getPayloadById :: "PayloadStore \<Rightarrow> js_string \<Rightarrow> StoredPayload option" where
  "getPayloadById s i = find (\<lambda>p. sp_id p = i) (payloads s)"

text \<open>
  \<open>getScreens\<close>: a \<open>Set\<close> keeps the first insertion of each value. (Values are
  compared structurally here, which is the \<open>Set\<close>'s comparison for the strings that
  \<open>NewScreenContent.name\<close> declares.)
\<close>

fun add_screens :: "jsval list \<Rightarrow> StoredPayload list \<Rightarrow> jsval list" where
  "add_screens screens [] = screens"
| "add_screens screens (p # ps) =
     add_screens (if truthy (sp_screen p) \<and> sp_screen p \<notin> set screens
                  then screens @ [sp_screen p] else screens) ps"

definition getScreens :: "PayloadStore \<Rightarrow> jsval list" where
  "getScreens s = add_screens [] (payloads s)"

section \<open>The renderers (components/renderers/index.tsx)\<close>


subsection \<open>String methods\<close>

text \<open>
  \<open>String.prototype.trim\<close> removes white space and line terminators at both ends:
  TAB, LF, VT, FF, CR, SP, NBSP, U+1680, U+2000 to U+200A, U+2028, U+2029, U+202F, U+205F,
  U+3000 and U+FEFF. \<open>slice0 s e\<close> is \<open>s.slice(0, e)\<close>: a negative end counts from
  the end of the string.
\<close>

definition is_js_space :: "nat \<Rightarrow> bool" where
  "is_js_space c =
     (c \<in> {9, 10, 11, 12, 13, 32, 160, 5760, 8232, 8233, 8239, 8287, 12288, 65279}
      \<or> (8192 \<le> c \<and> c \<le> 8202))"

definition trim_js :: "js_string \<Rightarrow> js_string" where
  "trim_js s = rev (dropWhile is_js_space (rev (dropWhile is_js_space s)))"


subsection \<open>truncate\<close>



subsection \<open>Conversions to strings\<close>














subsection \<open>getPreviewText\<close>


subsection \<open>detectLanguage\<close>

text \<open>
  \<open>startsWith\<close>, \<open>endsWith\<close> and \<open>includes\<close> of strings. \<open>lower_ascii\<close> is
  \<open>toLowerCase\<close> on the letters A to Z; for the two substring tests of
  \<open>detectLanguage\<close> that is all of it: the only other code unit whose lower case
  holds a letter searched for is U+0130, which becomes \<open>i\<close> followed by U+0307, and no
  match continues with that. The \<open>i\<close> flag of a regular expression folds the same
  letters only.
\<close>

definition starts_with :: "js_string \<Rightarrow> js_string \<Rightarrow> bool" where
  "starts_with s p = (take (length p) s = p)"

definition ends_with :: "js_string \<Rightarrow> js_string \<Rightarrow> bool" where
  "ends_with s p = (length p \<le> length s \<and> drop (length s - length p) s = p)"

fun includes_str :: "js_string \<Rightarrow> js_string \<Rightarrow> bool" where
  "includes_str [] p = (p = [])"
| "includes_str (c # cs) p = (starts_with (c # cs) p \<or> includes_str cs p)"

definition lower_ascii :: "nat \<Rightarrow> nat" where
  "lower_ascii c = (if 65 \<le> c \<and> c \<le> 90 then c + 32 else c)"

definition starts_with_ci :: "js_string \<Rightarrow> js_string \<Rightarrow> bool" where
  "starts_with_ci s p = starts_with (map lower_ascii s) (map lower_ascii p)"

definition is_letter :: "nat \<Rightarrow> bool" where
  "is_letter c = ((65 \<le> c \<and> c \<le> 90) \<or> (97 \<le> c \<and> c \<le> 122))"

definition is_digit :: "nat \<Rightarrow> bool" where
  "is_digit c = (48 \<le> c \<and> c \<le> 57)"

text \<open>
  \<open>/<[a-z]+[^>]*xmlns/i.test(s)\<close>: somewhere a \<open><\<close>, a letter, and then
  \<open>xmlns\<close> before any \<open>>\<close>.
\<close>

fun scan_xmlns :: "js_string \<Rightarrow> bool" where
  "scan_xmlns [] = False"
| "scan_xmlns (c # cs) = (starts_with_ci (c # cs) (js ''xmlns'') \<or> (c \<noteq> 62 \<and> scan_xmlns cs))"

fun xmlns_tag :: "js_string \<Rightarrow> bool" where
  "xmlns_tag (c # d # cs) = ((c = 60 \<and> is_letter d \<and> scan_xmlns cs) \<or> xmlns_tag (d # cs))"
| "xmlns_tag cs = False"

text \<open>
  Whether \<open>JSON.parse(text)\<close> returns: a recogniser of the JSON grammar. Each function
  returns the rest of the input after what it read. \<open>json_value\<close>, \<open>json_elements\<close>
  (after the \<open>[\<close> of an array or a comma in it) and \<open>json_members\<close> (after the
  \<open>{\<close> of an object or a comma in it) call each other with a bound on the calls;
  \<open>JSON_parse_ok\<close> starts with two calls for each code unit, more than a text can use.
  (The depth at which an engine gives up on nested arrays is not modelled.)
\<close>

definition is_json_space :: "nat \<Rightarrow> bool" where
  "is_json_space c = (c = 32 \<or> c = 9 \<or> c = 10 \<or> c = 13)"

definition is_hex :: "nat \<Rightarrow> bool" where
  "is_hex c = (is_digit c \<or> (65 \<le> c \<and> c \<le> 70) \<or> (97 \<le> c \<and> c \<le> 102))"

fun json_string :: "js_string \<Rightarrow> js_string option" where
  "json_string [] = None"
| "json_string (c # cs) =
     (if c = 34 then Some cs
      else if c = 92 then
        (case cs of
           [] \<Rightarrow> None
         | e # r \<Rightarrow>
             if e \<in> {34, 92, 47, 98, 102, 110, 114, 116} then json_string r
             else if e = 117 \<and> 4 \<le> length r \<and> list_all is_hex (take 4 r)
               then json_string (drop 4 r)
             else None)
      else if c < 32 then None
      else json_string cs)"

definition json_digits :: "js_string \<Rightarrow> js_string option" where
  "json_digits cs = (case cs of
       [] \<Rightarrow> None
     | c # r \<Rightarrow> if is_digit c then Some (dropWhile is_digit r) else None)"

definition json_number :: "js_string \<Rightarrow> js_string option" where
  "json_number cs =
     (let after_sign = (case cs of c # r \<Rightarrow> if c = 45 then r else cs | [] \<Rightarrow> cs);
          after_int = (case after_sign of
              [] \<Rightarrow> None
            | c # r \<Rightarrow> if c = 48 then Some r
                       else if is_digit c then Some (dropWhile is_digit r) else None);
          after_frac = (case after_int of
              None \<Rightarrow> None
            | Some [] \<Rightarrow> Some []
            | Some (c # r) \<Rightarrow> if c = 46 then json_digits r else Some (c # r))
      in case after_frac of
           None \<Rightarrow> None
         | Some [] \<Rightarrow> Some []
         | Some (c # r) \<Rightarrow>
             if c = 101 \<or> c = 69 then
               (case r of
                  s # r' \<Rightarrow> if s = 43 \<or> s = 45 then json_digits r' else json_digits r
                | [] \<Rightarrow> None)
             else Some (c # r))"

fun json_value :: "nat \<Rightarrow> js_string \<Rightarrow> js_string option"
  and json_elements :: "nat \<Rightarrow> js_string \<Rightarrow> js_string option"
  and json_members :: "nat \<Rightarrow> js_string \<Rightarrow> js_string option" where
  "json_value 0 cs = None"
| "json_value (Suc n) cs =
     (case dropWhile is_json_space cs of
        [] \<Rightarrow> None
      | c # r \<Rightarrow>
          if c = 123 then
            (case dropWhile is_json_space r of
               [] \<Rightarrow> None
             | d # r' \<Rightarrow> if d = 125 then Some r' else json_members n r)
          else if c = 91 then
            (case dropWhile is_json_space r of
               [] \<Rightarrow> None
             | d # r' \<Rightarrow> if d = 93 then Some r' else json_elements n r)
          else if c = 34 then json_string r
          else if starts_with (c # r) (js ''true'') then Some (drop 4 (c # r))
          else if starts_with (c # r) (js ''false'') then Some (drop 5 (c # r))
          else if starts_with (c # r) (js ''null'') then Some (drop 4 (c # r))
          else json_number (c # r))"
| "json_elements 0 cs = None"
| "json_elements (Suc n) cs =
     (case json_value n cs of
        None \<Rightarrow> None
      | Some r \<Rightarrow>
          (case dropWhile is_json_space r of
             [] \<Rightarrow> None
           | c # r' \<Rightarrow> if c = 44 then json_elements n r'
                       else if c = 93 then Some r' else None))"
| "json_members 0 cs = None"
| "json_members (Suc n) cs =
     (case dropWhile is_json_space cs of
        [] \<Rightarrow> None
      | q # r \<Rightarrow>
          if q \<noteq> 34 then None
          else (case json_string r of
             None \<Rightarrow> None
           | Some r1 \<Rightarrow>
               (case dropWhile is_json_space r1 of
                  [] \<Rightarrow> None
                | c # r2 \<Rightarrow>
                    if c \<noteq> 58 then None
                    else (case json_value n r2 of
                       None \<Rightarrow> None
                     | Some r3 \<Rightarrow>
                         (case dropWhile is_json_space r3 of
                            [] \<Rightarrow> None
                          | d # r4 \<Rightarrow> if d = 44 then json_members n r4
                                      else if d = 125 then Some r4 else None)))))"

definition JSON_parse_ok :: "js_string \<Rightarrow> bool" where
  "JSON_parse_ok text =
     (case json_value (2 * length text + 2) text of
        None \<Rightarrow> False
      | Some r \<Rightarrow> dropWhile is_json_space r = [])"

text \<open>
  The regular expressions of the keyword checks, each as a function. \<open>\s\<close> matches the
  code units that \<open>trim\<close> removes; \<open>.\<close> matches all but line terminators.
\<close>

definition sql_keywords :: "js_string list" where
  "sql_keywords = [js ''SELECT'', js ''INSERT'', js ''UPDATE'', js ''DELETE'', js ''CREATE'',
     js ''ALTER'', js ''DROP'', js ''TRUNCATE'', js ''WITH'']"

definition followed_by_space :: "js_string \<Rightarrow> js_string \<Rightarrow> bool" where
  "followed_by_space s kw =
     (case drop (length kw) s of [] \<Rightarrow> False | c # r \<Rightarrow> is_js_space c)"

definition sql_start :: "js_string \<Rightarrow> bool" where
  "sql_start s =
     (let r = dropWhile is_js_space s in
      list_ex (\<lambda>kw. starts_with_ci r kw \<and> followed_by_space r kw) sql_keywords)"

definition js_keywords :: "js_string list" where
  "js_keywords = [js ''function'', js ''const'', js ''let'', js ''var'', js ''class'',
     js ''async'', js ''export'', js ''import'']"

definition is_ident_start :: "nat \<Rightarrow> bool" where
  "is_ident_start c = (is_letter c \<or> c = 95 \<or> c = 36)"

definition is_ident_part :: "nat \<Rightarrow> bool" where
  "is_ident_part c = (is_ident_start c \<or> is_digit c)"

definition arrow_start :: "js_string \<Rightarrow> bool" where
  "arrow_start s =
     (case s of
        [] \<Rightarrow> False
      | c # r \<Rightarrow>
          c = 40 \<and>
          (case dropWhile (\<lambda>d. d \<noteq> 41) r of
             [] \<Rightarrow> False
           | d # r' \<Rightarrow> starts_with (dropWhile is_js_space r') (js ''=>'')))"

definition function_assignment :: "js_string \<Rightarrow> bool" where
  "function_assignment s =
     (case s of
        [] \<Rightarrow> False
      | c # r \<Rightarrow>
          is_ident_start c \<and>
          (case dropWhile is_js_space (dropWhile is_ident_part r) of
             [] \<Rightarrow> False
           | d # r' \<Rightarrow> d = 61 \<and> starts_with (dropWhile is_js_space r') (js ''function'')))"

definition javascript_start :: "js_string \<Rightarrow> bool" where
  "javascript_start s =
     (list_ex (\<lambda>kw. starts_with s kw \<and> followed_by_space s kw) js_keywords
      \<or> arrow_start s \<or> function_assignment s)"

definition is_line_terminator :: "nat \<Rightarrow> bool" where
  "is_line_terminator c = (c = 10 \<or> c = 13 \<or> c = 8232 \<or> c = 8233)"

definition css_rule_start :: "js_string \<Rightarrow> bool" where
  "css_rule_start s =
     (case s of
        c # d # r \<Rightarrow>
          (c = 46 \<or> c = 35 \<or> c = 64) \<and> is_letter d \<and>
          123 \<in> set (takeWhile (\<lambda>e. \<not> is_line_terminator e) r)
      | _ \<Rightarrow> False)"

definition css_declaration_start :: "js_string \<Rightarrow> bool" where
  "css_declaration_start s =
     (case s of
        [] \<Rightarrow> False
      | c # r \<Rightarrow>
          (is_letter c \<or> c = 45) \<and>
          (case dropWhile is_js_space (dropWhile (\<lambda>d. is_letter d \<or> d = 45) r) of
             [] \<Rightarrow> False
           | d # r' \<Rightarrow>
               d = 58 \<and> (case r' of [] \<Rightarrow> False | e # r'' \<Rightarrow> e \<noteq> 59 \<and> 59 \<in> set r'')))"

text \<open>
  \<open>detectLanguage\<close>. The source reads nothing but its argument, and its regular
  expressions have no \<open>g\<close> or \<open>y\<close> flag, so no state survives a call: the result
  is a function of the text.
\<close>

definition detectLanguage :: "js_string \<Rightarrow> js_string option" where
  "detectLanguage str =
     (let trimmed = trim_js str in
      if starts_with trimmed (js ''<'')
         \<and> (includes_str trimmed (js ''</'') \<or> includes_str trimmed (js ''/>'')) then
        (if includes_str (map lower_ascii trimmed) (js ''<script'')
            \<or> includes_str (map lower_ascii trimmed) (js ''</script>'') then Some (js ''html'')
         else if starts_with trimmed (js ''<?xml'') \<or> xmlns_tag trimmed then Some (js ''xml'')
         else Some (js ''html''))
      else if ((starts_with trimmed (js ''{'') \<and> ends_with trimmed (js ''}''))
               \<or> (starts_with trimmed (js ''['') \<and> ends_with trimmed (js '']'')))
              \<and> JSON_parse_ok trimmed then Some (js ''json'')
      else if sql_start trimmed then Some (js ''sql'')
      else if starts_with trimmed (js ''<?php'') \<or> starts_with trimmed (js ''<?='') then
        Some (js ''php'')
      else if javascript_start trimmed then Some (js ''javascript'')
      else if css_rule_start trimmed \<or> css_declaration_start trimmed then Some (js ''css'')
      else None)"

section \<open>Vocabulary of the properties\<close>

text \<open>
  \<open>most_recent_match uuid ps i\<close>: position \<open>i\<close> holds the last entry of the history
  \<open>ps\<close> whose correlation id is \<open>uuid\<close>.
\<close>

definition most_recent_match :: "js_string \<Rightarrow> StoredPayload list \<Rightarrow> nat \<Rightarrow> bool" where
  "most_recent_match uuid ps i =
     (i < length ps \<and> sp_uuid (ps ! i) = uuid \<and> (\<forall>p \<in> set (drop (Suc i) ps). sp_uuid p \<noteq> uuid))"

text \<open>The tags that \<open>processPayload\<close> handles in its \<open>switch\<close>; every other tag creates an entry.\<close>

definition directive_tags :: "js_string set" where
  "directive_tags = {js ''color'', js ''label'', js ''size'', js ''new_screen'', js ''clear_all'',
     js ''hide'', js ''remove'', js ''show_app'', js ''hide_app'', js ''confetti''}"

text \<open>The entry that an entry-creating event appends.\<close>

definition new_entry ::
  "js_string \<Rightarrow> RayPayload \<Rightarrow> jsval \<Rightarrow> int \<Rightarrow> int \<Rightarrow> PayloadStore \<Rightarrow> StoredPayload" where
  "new_entry uuid payload meta timestamp now s =
     \<lparr> sp_id = show_int now @ js ''-'' @ show_nat (payloadCounter s),
       sp_uuid = uuid, sp_type = pl_type payload, sp_content = pl_content payload,
       sp_origin = pl_origin payload, sp_meta = meta, sp_timestamp = timestamp,
       sp_color = Undefined, sp_label = Undefined, sp_size = Undefined,
       sp_screen = currentScreen s, sp_hidden = False \<rparr>"

text \<open>
  A history used in the examples: three log entries created in the same millisecond, the
  first two sharing the correlation id \<open>abc\<close>.
\<close>

definition demo_entry :: "nat \<Rightarrow> js_string \<Rightarrow> StoredPayload" where
  "demo_entry n uuid =
     \<lparr> sp_id = show_int 1700000000000 @ js ''-'' @ show_nat n,
       sp_uuid = uuid, sp_type = js ''log'',
       sp_content = Obj [(js ''values'', Arr [Str (js ''hello''), Num 42])],
       sp_origin = Undefined, sp_meta = Undefined, sp_timestamp = 1700000000000,
       sp_color = Undefined, sp_label = Undefined, sp_size = Undefined,
       sp_screen = Str (js ''default''), sp_hidden = False \<rparr>"

definition demo_store :: PayloadStore where
  "demo_store =
     \<lparr> payloads = [demo_entry 0 (js ''abc''), demo_entry 1 (js ''abc''), demo_entry 2 (js ''xyz'')],
       currentScreen = Str (js ''default''), payloadCounter = 3, notifications = 3 \<rparr>"

text \<open>
  An identifier is the template literal \<open>`${Date.now()}-${this.payloadCounter++}`\<close>.
  \<open>id_counter\<close> reads the counter back from it: the decimal number after the last
  dash (code unit 45).
\<close>

definition id_suffix :: "js_string \<Rightarrow> js_string" where
  "id_suffix i = rev (takeWhile (\<lambda>c. c \<noteq> 45) (rev i))"

definition parse_nat :: "js_string \<Rightarrow> nat" where
  "parse_nat ds = foldl (\<lambda>a d. 10 * a + (d - 48)) 0 ds"

definition id_counter :: "js_string \<Rightarrow> nat" where
  "id_counter i = parse_nat (id_suffix i)"

text \<open>
  The order JavaScript gives to strings (\<open>a < b\<close>): code unit by code unit, a proper
  prefix first.
\<close>

fun js_less :: "js_string \<Rightarrow> js_string \<Rightarrow> bool" where
  "js_less [] [] = False"
| "js_less [] (y # ys) = True"
| "js_less (x # xs) [] = False"
| "js_less (x # xs) (y # ys) = (x < y \<or> (x = y \<and> js_less xs ys))"

text \<open>
  \<open>stamp p\<close> is the entry as it was created: the four fields that only directives
  write are reset.
\<close>

definition stamp :: "StoredPayload \<Rightarrow> StoredPayload" where
  "stamp p = p \<lparr> sp_color := Undefined, sp_label := Undefined, sp_size := Undefined,
     sp_hidden := False \<rparr>"

text \<open>
  \<open>reach s ids\<close>: the store can be in state \<open>s\<close>, and \<open>ids\<close> are the identifiers
  issued up to then, in the order of issue. A store starts as \<open>new_store\<close>; an event
  that does not throw is processed; a call of \<open>addRequest\<close> ends by trimming and
  notifying; \<open>clear()\<close> may be called. (A throw leaves the store in the state that
  the events before it reached.)
\<close>

inductive reach :: "PayloadStore \<Rightarrow> js_string list \<Rightarrow> bool" where
  start: "reach new_store []"
| event: "reach s ids \<Longrightarrow> processPayload uuid (Some payload) meta timestamp now s = Inr s' \<Longrightarrow>
     reach s' (if pl_type payload \<in> directive_tags then ids
               else ids @ [sp_id (new_entry uuid payload meta timestamp now s)])"
| finish: "reach s ids \<Longrightarrow> reach (notify (trim s)) ids"
| cleared: "reach s ids \<Longrightarrow> reach (clear s) ids"

text \<open>
  The invariant of reachable states: the counters of the issued identifiers are
  \<open>0, 1, 2, ...\<close> up to \<open>payloadCounter\<close>, and the identifiers of the history are a
  subsequence of the issued ones.
\<close>

definition history_ok :: "PayloadStore \<Rightarrow> js_string list \<Rightarrow> bool" where
  "history_ok s ids =
     (map id_counter ids = [0..<payloadCounter s] \<and> subseq (map sp_id (payloads s)) ids)"

text \<open>The store after a call, whether it returned or threw.\<close>

definition final :: "(error \<times> PayloadStore) + PayloadStore \<Rightarrow> PayloadStore" where
  "final r = (case r of Inl (e, s) \<Rightarrow> s | Inr s \<Rightarrow> s)"

text \<open>Events used in the examples.\<close>

definition demo_log :: RayPayload where
  "demo_log = \<lparr> pl_type = js ''log'',
     pl_content = Obj [(js ''values'', Arr [Str (js ''hello''), Num 42])],
     pl_origin = Undefined \<rparr>"

text \<open>
  A full history: \<open>MAX_PAYLOADS\<close> entries, the oldest one visible and all the others
  hidden.
\<close>

definition aged_entry :: "nat \<Rightarrow> StoredPayload" where
  "aged_entry n = (demo_entry n (js ''abc'')) \<lparr> sp_hidden := (n \<noteq> 0) \<rparr>"

definition full_store :: PayloadStore where
  "full_store = \<lparr> payloads = map aged_entry [0..<MAX_PAYLOADS], currentScreen = Str (js ''default''),
     payloadCounter = MAX_PAYLOADS, notifications = MAX_PAYLOADS \<rparr>"

definition demo_remove :: RayPayload where
  "demo_remove = \<lparr> pl_type = js ''remove'', pl_content = Obj [], pl_origin = Undefined \<rparr>"

text \<open>The filter of \<open>getPayloads\<close>.\<close>

definition visible :: "StoredPayload \<Rightarrow> bool" where
  "visible p = (\<not> sp_hidden p)"

definition demo_new_screen :: RayPayload where
  "demo_new_screen = \<lparr> pl_type = js ''new_screen'',
     pl_content = Obj [(js ''name'', Str (js ''debug''))], pl_origin = Undefined \<rparr>"

definition demo_clear_all :: RayPayload where
  "demo_clear_all = \<lparr> pl_type = js ''clear_all'', pl_content = Obj [], pl_origin = Undefined \<rparr>"

text \<open>More example data: batches, calls and the store after one log event.\<close>

definition ten_logs :: RayRequest where
  "ten_logs = \<lparr> rq_uuid = js ''abc'',
     rq_payloads = [Some demo_log, Some demo_log, Some demo_log, Some demo_log, Some demo_log,
                    Some demo_log, Some demo_log, Some demo_log, Some demo_log, Some demo_log],
     rq_meta = Undefined \<rparr>"

definition one_log_store :: PayloadStore where
  "one_log_store = new_store \<lparr> payloads := payloads new_store @
       [new_entry (js ''abc'') demo_log Undefined 1700000000000 1700000000000 new_store],
     payloadCounter := Suc (payloadCounter new_store) \<rparr>"

text \<open>\<open>null\<close> or \<open>undefined\<close>: the values whose property reads throw.\<close>

definition nullish :: "jsval \<Rightarrow> bool" where
  "nullish v = (v = Undefined \<or> v = Null)"

definition null_new_screen :: RayPayload where
  "null_new_screen = \<lparr> pl_type = js ''new_screen'', pl_content = Null, pl_origin = Undefined \<rparr>"

definition null_log :: RayPayload where
  "null_log = \<lparr> pl_type = js ''log'', pl_content = Null, pl_origin = Undefined \<rparr>"

definition odd_batch :: RayRequest where
  "odd_batch = \<lparr> rq_uuid = js ''abc'',
     rq_payloads =
       [Some \<lparr> pl_type = js ''color'', pl_content = Num 5, pl_origin = Undefined \<rparr>,
        Some \<lparr> pl_type = js ''new_screen'', pl_content = Str (js ''x''), pl_origin = Undefined \<rparr>,
        Some null_log],
     rq_meta = Undefined \<rparr>"

text \<open>A batch with a \<open>null\<close> element between two log events.\<close>

definition null_batch :: RayRequest where
  "null_batch = \<lparr> rq_uuid = js ''abc'', rq_payloads = [Some demo_log, None, Some demo_log],
     rq_meta = Undefined \<rparr>"

text \<open>
  A sequence of calls of \<open>addRequest\<close>, each with the clock readings it meets; the
  sequence stops at the first call that throws. \<open>single_creation\<close>: the batch holds
  exactly one event, and it creates an entry. \<open>created_entries s calls\<close> are the
  entries that such batches create from the store \<open>s\<close> on, in the order submitted.
\<close>

type_synonym call = "int \<times> (nat \<Rightarrow> int) \<times> RayRequest"

fun addRequests :: "call list \<Rightarrow> PayloadStore \<Rightarrow> (error \<times> PayloadStore) + PayloadStore" where
  "addRequests [] s = Inr s"
| "addRequests ((timestamp, clock, request) # calls) s =
     (case addRequest timestamp clock request s of
        Inl e \<Rightarrow> Inl e
      | Inr s' \<Rightarrow> addRequests calls s')"

definition single_creation :: "call \<Rightarrow> bool" where
  "single_creation c =
     (case c of (timestamp, clock, request) \<Rightarrow>
        (case rq_payloads request of
           [Some ev] \<Rightarrow> pl_type ev \<notin> directive_tags
         | _ \<Rightarrow> False))"

fun created_entries :: "PayloadStore \<Rightarrow> call list \<Rightarrow> StoredPayload list" where
  "created_entries s [] = []"
| "created_entries s ((timestamp, clock, request) # calls) =
     new_entry (rq_uuid request) (the (hd (rq_payloads request))) (rq_meta request) timestamp
       (clock 0) s
     # created_entries (s \<lparr> payloadCounter := Suc (payloadCounter s) \<rparr>) calls"

definition log_call :: call where
  "log_call = (1700000000000, \<lambda>i. 1700000000000,
     \<lparr> rq_uuid = js ''abc'', rq_payloads = [Some demo_log], rq_meta = Undefined \<rparr>)"

definition eleven_calls :: "call list" where
  "eleven_calls = [log_call, log_call, log_call, log_call, log_call, log_call,
     log_call, log_call, log_call, log_call, log_call]"







text \<open>The conditions of the first two checks of \<open>detectLanguage\<close>.\<close>

definition html_like :: "js_string \<Rightarrow> bool" where
  "html_like t =
     (starts_with t (js ''<'') \<and> (includes_str t (js ''</'') \<or> includes_str t (js ''/>'')))"

definition json_like :: "js_string \<Rightarrow> bool" where
  "json_like t =
     (((starts_with t (js ''{'') \<and> ends_with t (js ''}''))
       \<or> (starts_with t (js ''['') \<and> ends_with t (js '']''))) \<and> JSON_parse_ok t)"

text \<open>A JSON array holding an SQL statement, with white space around it.\<close>

definition sql_in_json :: js_string where
  "sql_in_json = js ''  ['' @ [34] @ js ''SELECT * FROM users '' @ [34] @ js '']'' @ [10]"

section \<open>Properties of the store\<close>

subsection \<open>The backwards scan of applyToPayload\<close>

lemma applyFrom_no_match:
  "n \<le> length ps \<Longrightarrow> \<forall>j<n. sp_uuid (ps ! j) \<noteq> uuid \<Longrightarrow> applyFrom n uuid m ps = Inr ps"
  by (induction n) auto

lemma applyFrom_match:
  "n \<le> length ps \<Longrightarrow> i < n \<Longrightarrow> sp_uuid (ps ! i) = uuid \<Longrightarrow>
   \<forall>j. i < j \<and> j < n \<longrightarrow> sp_uuid (ps ! j) \<noteq> uuid \<Longrightarrow>
   applyFrom n uuid m ps =
     (case m (ps ! i) of Inl e \<Rightarrow> Inl e | Inr p' \<Rightarrow> Inr (ps[i := p']))"
proof (induction n)
  case 0
  then show ?case by simp
next
  case (Suc n)
  show ?case
  proof (cases "i = n")
    case True
    with Suc.prems show ?thesis by auto
  next
    case False
    with Suc.prems have "i < n" by simp
    moreover from Suc.prems False have "sp_uuid (ps ! n) \<noteq> uuid" by simp
    ultimately show ?thesis using Suc by simp
  qed
qed

lemma most_recent_match_later:
  assumes "most_recent_match uuid ps i" "i < j" "j < length ps"
  shows "sp_uuid (ps ! j) \<noteq> uuid"
proof -
  from assms have "drop (Suc i) ps ! (j - Suc i) = ps ! j" "j - Suc i < length (drop (Suc i) ps)"
    by auto
  then have "ps ! j \<in> set (drop (Suc i) ps)"
    by (metis nth_mem)
  with assms show ?thesis by (simp add: most_recent_match_def)
qed

lemma applyToPayload_no_match:
  "\<forall>p \<in> set (payloads s). sp_uuid p \<noteq> uuid \<Longrightarrow> applyToPayload uuid m s = Inr s"
  by (simp add: applyToPayload_def applyFrom_no_match)

lemma applyToPayload_match:
  assumes "most_recent_match uuid (payloads s) i"
  shows "applyToPayload uuid m s =
     (case m (payloads s ! i) of
        Inl e \<Rightarrow> Inl e
      | Inr p' \<Rightarrow> Inr (s \<lparr> payloads := (payloads s)[i := p'] \<rparr>))"
proof -
  have "applyFrom (length (payloads s)) uuid m (payloads s) =
     (case m (payloads s ! i) of Inl e \<Rightarrow> Inl e | Inr p' \<Rightarrow> Inr ((payloads s)[i := p']))"
    using assms most_recent_match_later [OF assms]
    by (intro applyFrom_match) (auto simp: most_recent_match_def)
  then show ?thesis by (simp add: applyToPayload_def split: sum.splits)
qed

subsection \<open>processPayload, tag by tag\<close>

lemma processPayload_color:
  "pl_type payload = js ''color'' \<Longrightarrow>
   processPayload uuid (Some payload) meta timestamp now s =
     applyToPayload uuid (set_color (pl_content payload)) s"
  by (simp add: processPayload_def)

lemma processPayload_label:
  "pl_type payload = js ''label'' \<Longrightarrow>
   processPayload uuid (Some payload) meta timestamp now s =
     applyToPayload uuid (set_label (pl_content payload)) s"
  by (simp add: processPayload_def js_def)

lemma processPayload_size:
  "pl_type payload = js ''size'' \<Longrightarrow>
   processPayload uuid (Some payload) meta timestamp now s =
     applyToPayload uuid (set_size (pl_content payload)) s"
  by (simp add: processPayload_def js_def)

lemma processPayload_hide:
  "pl_type payload = js ''hide'' \<Longrightarrow>
   processPayload uuid (Some payload) meta timestamp now s = applyToPayload uuid set_hidden s"
  by (simp add: processPayload_def js_def)

lemma processPayload_new_screen:
  "pl_type payload = js ''new_screen'' \<Longrightarrow>
   processPayload uuid (Some payload) meta timestamp now s =
     (case get_prop (pl_content payload) (js ''name'') of
        Inl e \<Rightarrow> Inl e
      | Inr v \<Rightarrow> Inr (s \<lparr> currentScreen := v \<rparr>))"
proof -
  have "js ''new_screen'' \<noteq> js ''color''" "js ''new_screen'' \<noteq> js ''label''"
    "js ''new_screen'' \<noteq> js ''size''"
    by (simp_all add: js_def)
  then show "pl_type payload = js ''new_screen'' \<Longrightarrow> ?thesis"
    by (simp add: processPayload_def)
qed

lemma processPayload_clear_all:
  "pl_type payload = js ''clear_all'' \<Longrightarrow>
   processPayload uuid (Some payload) meta timestamp now s = Inr (s \<lparr> payloads := [] \<rparr>)"
  by (simp add: processPayload_def js_def)

lemma processPayload_remove:
  "pl_type payload = js ''remove'' \<Longrightarrow>
   processPayload uuid (Some payload) meta timestamp now s =
     Inr (s \<lparr> payloads := filter (\<lambda>p. sp_uuid p \<noteq> uuid) (payloads s) \<rparr>)"
  by (simp add: processPayload_def js_def)

lemma processPayload_ignored:
  "pl_type payload \<in> {js ''show_app'', js ''hide_app'', js ''confetti''} \<Longrightarrow>
   processPayload uuid (Some payload) meta timestamp now s = Inr s"
  by (auto simp: processPayload_def js_def)

lemma processPayload_create:
  "pl_type payload \<notin> directive_tags \<Longrightarrow>
   processPayload uuid (Some payload) meta timestamp now s =
     Inr (s \<lparr> payloads := payloads s @ [new_entry uuid payload meta timestamp now s],
              payloadCounter := Suc (payloadCounter s) \<rparr>)"
  by (simp add: processPayload_def directive_tags_def new_entry_def)

text \<open>A \<open>null\<close> element throws; an element that is processed without a throw is an event.\<close>

lemma processPayload_null:
  "processPayload uuid None meta timestamp now s = Inl TypeError"
  by (simp add: processPayload_def)

lemma processPayload_event:
  "processPayload uuid x meta timestamp now s = Inr s' \<Longrightarrow> \<exists>ev. x = Some ev"
  by (cases x) (simp_all add: processPayload_def)

subsection \<open>Identifiers\<close>

lemma js_dash: "js ''-'' = [45]"
  by (simp add: js_def)

lemma show_nat_digits: "c \<in> set (show_nat n) \<Longrightarrow> 48 \<le> c \<and> c \<le> 57"
proof (induction n arbitrary: c rule: show_nat.induct)
  case (1 n)
  show ?case
  proof (cases "n < 10")
    case True
    with "1.prems" show ?thesis by (simp add: show_nat.simps)
  next
    case False
    have "show_nat n = show_nat (n div 10) @ [48 + n mod 10]"
      using False by (subst show_nat.simps) simp
    with "1.prems" have "c \<in> set (show_nat (n div 10)) \<or> c = 48 + n mod 10" by auto
    then show ?thesis
    proof
      assume "c \<in> set (show_nat (n div 10))"
      with "1.IH" False show ?thesis by blast
    next
      assume "c = 48 + n mod 10"
      moreover have "n mod 10 < 10" by simp
      ultimately show ?thesis by linarith
    qed
  qed
qed

lemma parse_nat_snoc: "parse_nat (ds @ [d]) = 10 * parse_nat ds + (d - 48)"
  by (simp add: parse_nat_def)

lemma parse_show_nat: "parse_nat (show_nat n) = n"
proof (induction n rule: show_nat.induct)
  case (1 n)
  show ?case
  proof (cases "n < 10")
    case True
    then show ?thesis by (simp add: show_nat.simps parse_nat_def)
  next
    case False
    have "show_nat n = show_nat (n div 10) @ [48 + n mod 10]"
      using False by (subst show_nat.simps) simp
    with "1.IH" False show ?thesis by (simp add: parse_nat_snoc)
  qed
qed

lemma id_suffix_dash: "id_suffix (t @ js ''-'' @ show_nat n) = show_nat n"
proof -
  have "takeWhile (\<lambda>c. c \<noteq> 45) (rev (show_nat n) @ 45 # rev t) = rev (show_nat n)"
  proof -
    have "\<And>c. c \<in> set (rev (show_nat n)) \<Longrightarrow> c \<noteq> 45"
      using show_nat_digits by fastforce
    then have "takeWhile (\<lambda>c. c \<noteq> 45) (rev (show_nat n) @ 45 # rev t) =
        rev (show_nat n) @ takeWhile (\<lambda>c. c \<noteq> 45) (45 # rev t)"
      by (rule takeWhile_append2)
    then show ?thesis by simp
  qed
  then show ?thesis by (simp add: id_suffix_def js_dash)
qed

lemma id_counter_dash [simp]: "id_counter (t @ js ''-'' @ show_nat n) = n"
  by (simp add: id_counter_def id_suffix_dash parse_show_nat)

subsection \<open>What a directive can change\<close>

lemma applyFrom_stamps:
  assumes "\<And>p p'. m p = Inr p' \<Longrightarrow> stamp p' = stamp p"
  shows "n \<le> length ps \<Longrightarrow> applyFrom n uuid m ps = Inr ps' \<Longrightarrow> map stamp ps' = map stamp ps"
proof (induction n)
  case 0
  then show ?case by simp
next
  case (Suc n)
  show ?case
  proof (cases "sp_uuid (ps ! n) = uuid")
    case True
    with Suc.prems obtain p' where p': "m (ps ! n) = Inr p'" "ps' = ps[n := p']"
      by (auto split: sum.splits)
    from p'(1) have "stamp p' = stamp (ps ! n)" by (rule assms)
    with p'(2) Suc.prems(1) show ?thesis
      by (simp add: map_update list_update_same_conv)
  next
    case False
    with Suc show ?thesis by simp
  qed
qed

lemma applyToPayload_stamps:
  assumes "\<And>p p'. m p = Inr p' \<Longrightarrow> stamp p' = stamp p"
    and "applyToPayload uuid m s = Inr s'"
  shows "map stamp (payloads s') = map stamp (payloads s) \<and>
    currentScreen s' = currentScreen s \<and> payloadCounter s' = payloadCounter s \<and>
    notifications s' = notifications s"
proof -
  from assms(2) obtain ps' where ps': "applyFrom (length (payloads s)) uuid m (payloads s) = Inr ps'"
    "s' = s \<lparr> payloads := ps' \<rparr>"
    by (auto simp: applyToPayload_def split: sum.splits)
  from applyFrom_stamps [of m, OF assms(1) _ ps'(1)] have "map stamp ps' = map stamp (payloads s)"
    by simp
  with ps'(2) show ?thesis by simp
qed

lemma set_color_stamp: "set_color c p = Inr p' \<Longrightarrow> stamp p' = stamp p"
  by (auto simp: set_color_def stamp_def split: sum.splits)

lemma set_label_stamp: "set_label c p = Inr p' \<Longrightarrow> stamp p' = stamp p"
  by (auto simp: set_label_def stamp_def split: sum.splits)

lemma set_size_stamp: "set_size c p = Inr p' \<Longrightarrow> stamp p' = stamp p"
  by (auto simp: set_size_def stamp_def split: sum.splits)

lemma set_hidden_stamp: "set_hidden p = Inr p' \<Longrightarrow> stamp p' = stamp p"
  by (auto simp: set_hidden_def stamp_def)

lemma processPayload_directive:
  assumes "pl_type payload \<in> directive_tags"
    and "processPayload uuid (Some payload) meta timestamp now s = Inr s'"
  shows "subseq (map stamp (payloads s')) (map stamp (payloads s)) \<and>
    payloadCounter s' = payloadCounter s \<and> notifications s' = notifications s"
proof -
  consider "pl_type payload = js ''color''" | "pl_type payload = js ''label''"
    | "pl_type payload = js ''size''" | "pl_type payload = js ''new_screen''"
    | "pl_type payload = js ''clear_all''" | "pl_type payload = js ''hide''"
    | "pl_type payload = js ''remove''"
    | "pl_type payload \<in> {js ''show_app'', js ''hide_app'', js ''confetti''}"
    using assms(1) unfolding directive_tags_def by blast
  then show ?thesis
  proof cases
    case 1
    with assms(2) have "applyToPayload uuid (set_color (pl_content payload)) s = Inr s'"
      by (simp add: processPayload_color)
    from applyToPayload_stamps [OF set_color_stamp this] show ?thesis by simp
  next
    case 2
    with assms(2) have "applyToPayload uuid (set_label (pl_content payload)) s = Inr s'"
      by (simp add: processPayload_label)
    from applyToPayload_stamps [OF set_label_stamp this] show ?thesis by simp
  next
    case 3
    with assms(2) have "applyToPayload uuid (set_size (pl_content payload)) s = Inr s'"
      by (simp add: processPayload_size)
    from applyToPayload_stamps [OF set_size_stamp this] show ?thesis by simp
  next
    case 4
    with assms(2) show ?thesis
      by (auto simp: processPayload_new_screen split: sum.splits)
  next
    case 5
    with assms(2) show ?thesis
      by (auto simp: processPayload_clear_all)
  next
    case 6
    with assms(2) have "applyToPayload uuid set_hidden s = Inr s'"
      by (simp add: processPayload_hide)
    from applyToPayload_stamps [OF set_hidden_stamp this] show ?thesis by simp
  next
    case 7
    with assms(2) have "s' = s \<lparr> payloads := filter (\<lambda>p. sp_uuid p \<noteq> uuid) (payloads s) \<rparr>"
      by (simp add: processPayload_remove)
    then show ?thesis by (simp add: subseq_map)
  next
    case 8
    with assms(2) have "s' = s" by (simp add: processPayload_ignored)
    then show ?thesis by simp
  qed
qed

subsection \<open>Reachable states\<close>

lemma stamp_new_entry [simp]:
  "stamp (new_entry uuid payload meta timestamp now s) = new_entry uuid payload meta timestamp now s"
  by (simp add: stamp_def new_entry_def)

lemma sp_id_stamp [simp]: "sp_id (stamp p) = sp_id p"
  by (simp add: stamp_def)

lemma sp_timestamp_stamp [simp]: "sp_timestamp (stamp p) = sp_timestamp p"
  by (simp add: stamp_def)

lemma sp_screen_stamp [simp]: "sp_screen (stamp p) = sp_screen p"
  by (simp add: stamp_def)

lemma id_counter_new_entry [simp]:
  "id_counter (sp_id (new_entry uuid payload meta timestamp now s)) = payloadCounter s"
  by (simp add: new_entry_def)

lemma map_sp_id_stamp: "map sp_id (map stamp ps) = map sp_id ps"
  by simp

lemma subseq_stamps_ids:
  assumes "subseq (map stamp ps') (map stamp ps)"
  shows "subseq (map sp_id ps') (map sp_id ps)"
proof -
  from assms have "subseq (map sp_id (map stamp ps')) (map sp_id (map stamp ps))"
    by (rule subseq_map)
  moreover have "sp_id \<circ> stamp = sp_id" by (rule ext) simp
  ultimately show ?thesis by simp
qed

lemma subseq_drop_left: "subseq (drop n xs) xs"
  using suffix_drop by (rule suffix_imp_subseq)

lemma history_ok_trim: "history_ok s ids \<Longrightarrow> history_ok (notify (trim s)) ids"
proof -
  assume h: "history_ok s ids"
  have "subseq (map sp_id (slice_last MAX_PAYLOADS (payloads s))) (map sp_id (payloads s))"
    unfolding slice_last_def by (intro subseq_map subseq_drop_left)
  with h have "subseq (map sp_id (slice_last MAX_PAYLOADS (payloads s))) ids"
    unfolding history_ok_def by (meson subseq_order.trans)
  with h show ?thesis by (simp add: history_ok_def notify_def trim_def)
qed

lemma history_ok_event:
  assumes "history_ok s ids" "processPayload uuid (Some payload) meta timestamp now s = Inr s'"
  shows "history_ok s' (if pl_type payload \<in> directive_tags then ids
               else ids @ [sp_id (new_entry uuid payload meta timestamp now s)])"
proof (cases "pl_type payload \<in> directive_tags")
  case True
  from processPayload_directive [OF True assms(2)]
  have "subseq (map sp_id (payloads s')) (map sp_id (payloads s))" "payloadCounter s' = payloadCounter s"
    by (auto dest: subseq_stamps_ids)
  with assms(1) True show ?thesis
    unfolding history_ok_def by (auto intro: subseq_order.trans)
next
  case False
  with assms(2) have s': "s' = s \<lparr> payloads := payloads s @ [new_entry uuid payload meta timestamp now s],
              payloadCounter := Suc (payloadCounter s) \<rparr>"
    by (simp add: processPayload_create)
  with assms(1) False show ?thesis
    by (simp add: history_ok_def)
qed

lemma reach_history_ok: "reach s ids \<Longrightarrow> history_ok s ids"
proof (induction rule: reach.induct)
  case start
  show ?case by (simp add: history_ok_def new_store_def)
next
  case (event s ids uuid payload meta timestamp now s')
  from event.IH event.hyps(2) show ?case by (rule history_ok_event)
next
  case (finish s ids)
  from finish.IH show ?case by (rule history_ok_trim)
next
  case (cleared s ids)
  then show ?case by (simp add: history_ok_def clear_def notify_def)
qed

lemma distinct_counters: "map id_counter ids = [0..<n] \<Longrightarrow> distinct ids"
  by (metis distinct_map distinct_upt)

lemma sorted_counters: "map id_counter ids = [0..<n] \<Longrightarrow> sorted_wrt (<) (map id_counter ids)"
  by (simp add: sorted_wrt_upt del: upt.simps)

lemma subseq_distinct: "subseq xs ys \<Longrightarrow> distinct ys \<Longrightarrow> distinct xs"
  by (induction rule: list_emb.induct) (auto dest: list_emb_set)

subsection \<open>Whole batches\<close>

lemma final_simps [simp]: "final (Inl (e, s)) = s" "final (Inr s) = s"
  by (simp_all add: final_def)

lemma subseq_set: "subseq xs ys \<Longrightarrow> set xs \<subseteq> set ys"
  by (induction rule: list_emb.induct) auto

lemma processPayload_stamps:
  assumes "processPayload uuid (Some payload) meta timestamp now s = Inr s'"
  shows "stamp ` set (payloads s') \<subseteq>
    insert (new_entry uuid payload meta timestamp now s) (stamp ` set (payloads s))"
proof (cases "pl_type payload \<in> directive_tags")
  case True
  from processPayload_directive [OF True assms]
  have "subseq (map stamp (payloads s')) (map stamp (payloads s))" by simp
  then have "set (map stamp (payloads s')) \<subseteq> set (map stamp (payloads s))"
    by (rule subseq_set)
  then show ?thesis by auto
next
  case False
  with assms show ?thesis by (auto simp: processPayload_create)
qed

lemma processAll_stamps:
  "p \<in> set (payloads (final (processAll uuid meta timestamp clock i evs s))) \<Longrightarrow>
   sp_timestamp p = timestamp \<or> stamp p \<in> stamp ` set (payloads s)"
proof (induction evs arbitrary: s i)
  case Nil
  then show ?case by simp
next
  case (Cons x evs)
  show ?case
  proof (cases "processPayload uuid x meta timestamp (clock i) s")
    case (Inl e)
    with Cons.prems show ?thesis by simp
  next
    case (Inr s'')
    from processPayload_event [OF this] obtain ev where "x = Some ev" ..
    with Inr have Inr: "processPayload uuid (Some ev) meta timestamp (clock i) s = Inr s''" by simp
    define s' where "s' = s''"
    with Cons.prems \<open>processPayload uuid x meta timestamp (clock i) s = Inr s''\<close> have "p \<in> set (payloads (final (processAll uuid meta timestamp clock (Suc i) evs s')))"
      by simp
    from Cons.IH [OF this] show ?thesis
    proof
      assume "sp_timestamp p = timestamp"
      then show ?thesis ..
    next
      assume "stamp p \<in> stamp ` set (payloads s')"
      with processPayload_stamps [OF Inr] s'_def
      have "stamp p = new_entry uuid ev meta timestamp (clock i) s \<or> stamp p \<in> stamp ` set (payloads s)"
        by blast
      then show ?thesis
      proof
        assume "stamp p = new_entry uuid ev meta timestamp (clock i) s"
        then have "sp_timestamp (stamp p) = timestamp" by (simp add: new_entry_def)
        then show ?thesis by simp
      qed simp
    qed
  qed
qed

lemma set_slice_last: "set (slice_last n xs) \<subseteq> set xs"
  by (simp add: slice_last_def set_drop_subset)

lemma payloads_trim_subset: "set (payloads (notify (trim s))) \<subseteq> set (payloads s)"
  by (simp add: notify_def trim_def set_slice_last)

lemma final_addRequest:
  "final (addRequest timestamp clock request s) =
     (case processAll (rq_uuid request) (rq_meta request) timestamp clock 0 (rq_payloads request) s of
        Inl (e, s') \<Rightarrow> s'
      | Inr s' \<Rightarrow> notify (trim s'))"
  by (simp add: addRequest_def split: sum.splits prod.splits)

lemma addRequest_payloads_subset:
  "set (payloads (final (addRequest timestamp clock request s))) \<subseteq>
   set (payloads (final (processAll (rq_uuid request) (rq_meta request) timestamp clock 0
      (rq_payloads request) s)))"
  using payloads_trim_subset by (auto simp: final_addRequest split: sum.splits prod.splits)

lemma addRequest_stamps:
  assumes "p \<in> set (payloads (final (addRequest timestamp clock request s)))"
  shows "sp_timestamp p = timestamp \<or> stamp p \<in> stamp ` set (payloads s)"
  using assms addRequest_payloads_subset processAll_stamps by blast

lemma processAll_reach:
  "reach s ids \<Longrightarrow> \<exists>ids'. reach (final (processAll uuid meta timestamp clock i evs s)) (ids @ ids')"
proof (induction evs arbitrary: s i ids)
  case Nil
  then show ?case by (auto intro: exI [of _ "[]"])
next
  case (Cons x evs)
  show ?case
  proof (cases "processPayload uuid x meta timestamp (clock i) s")
    case (Inl e)
    with Cons.prems show ?thesis by (auto intro: exI [of _ "[]"])
  next
    case (Inr s')
    from processPayload_event [OF this] obtain ev where x: "x = Some ev" ..
    from reach.event [OF Cons.prems Inr [unfolded x]] have "\<exists>ids1. reach s' (ids @ ids1)"
      by (cases "pl_type ev \<in> directive_tags") (auto intro: exI [of _ "[]"])
    then obtain ids1 where "reach s' (ids @ ids1)" ..
    from Cons.IH [OF this] obtain ids2 where
      "reach (final (processAll uuid meta timestamp clock (Suc i) evs s')) ((ids @ ids1) @ ids2)"
      by blast
    with Inr show ?thesis by (auto intro: exI [of _ "ids1 @ ids2"])
  qed
qed

lemma addRequest_reach:
  assumes "reach s ids"
  shows "\<exists>ids'. reach (final (addRequest timestamp clock request s)) (ids @ ids')"
proof -
  from processAll_reach [OF assms] obtain ids' where
    r: "reach (final (processAll (rq_uuid request) (rq_meta request) timestamp clock 0
      (rq_payloads request) s)) (ids @ ids')"
    by blast
  show ?thesis
  proof (cases "processAll (rq_uuid request) (rq_meta request) timestamp clock 0
      (rq_payloads request) s")
    case (Inl a)
    with r show ?thesis by (cases a) (auto simp: final_addRequest)
  next
    case (Inr s')
    with r have "reach (notify (trim s')) (ids @ ids')" by (auto intro: reach.finish)
    with Inr show ?thesis by (auto simp: final_addRequest)
  qed
qed

lemma reach_ids_of_entries:
  assumes "reach s ids" "p \<in> set (payloads s)"
  shows "sp_id p \<in> set ids"
proof -
  from reach_history_ok [OF assms(1)] have "subseq (map sp_id (payloads s)) ids"
    by (simp add: history_ok_def)
  then have "set (map sp_id (payloads s)) \<subseteq> set ids"
    by (rule subseq_set)
  with assms(2) show ?thesis by auto
qed

lemma sorted_wrt_subseq: "subseq xs ys \<Longrightarrow> sorted_wrt P ys \<Longrightarrow> sorted_wrt P xs"
proof (induction rule: list_emb.induct)
  case (list_emb_Nil ys)
  then show ?case by simp
next
  case (list_emb_Cons xs ys y)
  then show ?case by simp
next
  case (list_emb_Cons2 x y xs ys)
  then have "set xs \<subseteq> set ys" by (intro subseq_set)
  with list_emb_Cons2 show ?case by auto
qed

lemma reach_sorted_counters:
  assumes "reach s ids"
  shows "sorted_wrt (<) (map id_counter (map sp_id (payloads s)))"
proof -
  from reach_history_ok [OF assms] have cnt: "map id_counter ids = [0..<payloadCounter s]"
    and sub: "subseq (map sp_id (payloads s)) ids"
    by (simp_all add: history_ok_def)
  from sub have "subseq (map id_counter (map sp_id (payloads s))) (map id_counter ids)"
    by (rule subseq_map)
  moreover from cnt have "sorted_wrt (<) (map id_counter ids)" by (rule sorted_counters)
  ultimately show ?thesis by (rule sorted_wrt_subseq)
qed

lemma most_recent_match_newest:
  assumes "reach s ids" "most_recent_match uuid (payloads s) i"
    and "j < length (payloads s)" "sp_uuid (payloads s ! j) = uuid"
  shows "id_counter (sp_id (payloads s ! j)) \<le> id_counter (sp_id (payloads s ! i))"
proof (cases "j = i")
  case True
  then show ?thesis by simp
next
  case False
  from assms(2,3,4) have "\<not> i < j"
    using most_recent_match_later by blast
  with False have ji: "j < i" by simp
  from assms(2) have i: "i < length (payloads s)" by (simp add: most_recent_match_def)
  let ?cs = "map id_counter (map sp_id (payloads s))"
  from reach_sorted_counters [OF assms(1)] have "sorted_wrt (<) ?cs" .
  with ji i have "?cs ! j < ?cs ! i"
    by (simp add: sorted_wrt_iff_nth_less)
  with ji i show ?thesis by simp
qed

subsection \<open>Mutation targeting\<close>

text \<open>
  Claim C5. A \<open>color\<close>, \<open>label\<close>, \<open>size\<close> or \<open>hide\<close> event changes the store only
  at the last entry of the history whose correlation id is the batch's: that entry gets
  the field (the value of the content's property, whatever it is), every other entry and
  every other field of the store stay as they are. When no entry has that correlation
  id, the store is unchanged. In a reachable store that last entry is the one created
  most recently: no entry of the correlation id has a greater counter.
\<close>

theorem directive_targets_most_recent_match:
  "((\<forall>p \<in> set (payloads s). sp_uuid p \<noteq> uuid) \<longrightarrow>
      (\<forall>ty \<in> {js ''color'', js ''label'', js ''size'', js ''hide''}.
         processPayload uuid (Some \<lparr>pl_type = ty, pl_content = content, pl_origin = origin\<rparr>) meta
           timestamp now s = Inr s))
   \<and> (most_recent_match uuid (payloads s) i \<longrightarrow>
      (\<forall>v. get_prop content (js ''color'') = Inr v \<longrightarrow>
         processPayload uuid (Some \<lparr>pl_type = js ''color'', pl_content = content, pl_origin = origin\<rparr>)
           meta timestamp now s =
         Inr (s \<lparr> payloads := (payloads s)[i := (payloads s ! i) \<lparr> sp_color := v \<rparr>] \<rparr>))
    \<and> (\<forall>v. get_prop content (js ''label'') = Inr v \<longrightarrow>
         processPayload uuid (Some \<lparr>pl_type = js ''label'', pl_content = content, pl_origin = origin\<rparr>)
           meta timestamp now s =
         Inr (s \<lparr> payloads := (payloads s)[i := (payloads s ! i) \<lparr> sp_label := v \<rparr>] \<rparr>))
    \<and> (\<forall>v. get_prop content (js ''size'') = Inr v \<longrightarrow>
         processPayload uuid (Some \<lparr>pl_type = js ''size'', pl_content = content, pl_origin = origin\<rparr>)
           meta timestamp now s =
         Inr (s \<lparr> payloads := (payloads s)[i := (payloads s ! i) \<lparr> sp_size := v \<rparr>] \<rparr>))
    \<and> processPayload uuid (Some \<lparr>pl_type = js ''hide'', pl_content = content, pl_origin = origin\<rparr>)
           meta timestamp now s =
         Inr (s \<lparr> payloads := (payloads s)[i := (payloads s ! i) \<lparr> sp_hidden := True \<rparr>] \<rparr>)
    \<and> (reach s ids \<longrightarrow>
         (\<forall>p \<in> set (payloads s). sp_uuid p = uuid \<longrightarrow>
            id_counter (sp_id p) \<le> id_counter (sp_id (payloads s ! i)))))"
proof (intro conjI impI allI ballI)
  fix ty
  assume "\<forall>p \<in> set (payloads s). sp_uuid p \<noteq> uuid"
    and "ty \<in> {js ''color'', js ''label'', js ''size'', js ''hide''}"
  then show "processPayload uuid (Some \<lparr>pl_type = ty, pl_content = content, pl_origin = origin\<rparr>) meta
           timestamp now s = Inr s"
    by (auto simp: processPayload_color processPayload_label processPayload_size
        processPayload_hide applyToPayload_no_match)
next
  fix v
  assume "most_recent_match uuid (payloads s) i" "get_prop content (js ''color'') = Inr v"
  then show "processPayload uuid (Some \<lparr>pl_type = js ''color'', pl_content = content, pl_origin = origin\<rparr>)
           meta timestamp now s =
         Inr (s \<lparr> payloads := (payloads s)[i := (payloads s ! i) \<lparr> sp_color := v \<rparr>] \<rparr>)"
    by (simp add: processPayload_color applyToPayload_match set_color_def)
next
  fix v
  assume "most_recent_match uuid (payloads s) i" "get_prop content (js ''label'') = Inr v"
  then show "processPayload uuid (Some \<lparr>pl_type = js ''label'', pl_content = content, pl_origin = origin\<rparr>)
           meta timestamp now s =
         Inr (s \<lparr> payloads := (payloads s)[i := (payloads s ! i) \<lparr> sp_label := v \<rparr>] \<rparr>)"
    by (simp add: processPayload_label applyToPayload_match set_label_def)
next
  fix v
  assume "most_recent_match uuid (payloads s) i" "get_prop content (js ''size'') = Inr v"
  then show "processPayload uuid (Some \<lparr>pl_type = js ''size'', pl_content = content, pl_origin = origin\<rparr>)
           meta timestamp now s =
         Inr (s \<lparr> payloads := (payloads s)[i := (payloads s ! i) \<lparr> sp_size := v \<rparr>] \<rparr>)"
    by (simp add: processPayload_size applyToPayload_match set_size_def)
next
  assume "most_recent_match uuid (payloads s) i"
  then show "processPayload uuid (Some \<lparr>pl_type = js ''hide'', pl_content = content, pl_origin = origin\<rparr>)
           meta timestamp now s =
         Inr (s \<lparr> payloads := (payloads s)[i := (payloads s ! i) \<lparr> sp_hidden := True \<rparr>] \<rparr>)"
    by (simp add: processPayload_hide applyToPayload_match set_hidden_def)
next
  fix p
  assume m: "most_recent_match uuid (payloads s) i" and r: "reach s ids"
    and p: "p \<in> set (payloads s)" "sp_uuid p = uuid"
  from p(1) obtain j where j: "j < length (payloads s)" "payloads s ! j = p"
    by (auto simp: in_set_conv_nth)
  with p(2) have "sp_uuid (payloads s ! j) = uuid" by simp
  from most_recent_match_newest [OF r m j(1) this] j(2)
  show "id_counter (sp_id p) \<le> id_counter (sp_id (payloads s ! i))" by simp
qed

text \<open>
  With entries E1 and E2 sharing the correlation id \<open>abc\<close>, a colour event of that id
  colours E2 only; one with an unknown correlation id changes nothing.
\<close>

theorem directive_targets_most_recent_match_witness:
  "most_recent_match (js ''abc'') (payloads demo_store) 1
   \<and> processPayload (js ''abc'')
        (Some \<lparr>pl_type = js ''color'', pl_content = Obj [(js ''color'', Str (js ''red''))],
         pl_origin = Undefined\<rparr>) Undefined 1700000000500 1700000000500 demo_store =
       Inr (demo_store \<lparr> payloads :=
         [demo_entry 0 (js ''abc''), (demo_entry 1 (js ''abc'')) \<lparr> sp_color := Str (js ''red'') \<rparr>,
          demo_entry 2 (js ''xyz'')] \<rparr>)
   \<and> js ''other'' \<notin> sp_uuid ` set (payloads demo_store)
   \<and> processPayload (js ''other'')
        (Some \<lparr>pl_type = js ''color'', pl_content = Obj [(js ''color'', Str (js ''red''))],
         pl_origin = Undefined\<rparr>) Undefined 1700000000500 1700000000500 demo_store =
       Inr demo_store"
proof -
  have m: "most_recent_match (js ''abc'') (payloads demo_store) 1"
    by (simp add: most_recent_match_def demo_store_def demo_entry_def js_def)
  have g: "get_prop (Obj [(js ''color'', Str (js ''red''))]) (js ''color'') = Inr (Str (js ''red''))"
    by simp
  have n: "\<forall>p \<in> set (payloads demo_store). sp_uuid p \<noteq> js ''other''"
    by (simp add: demo_store_def demo_entry_def js_def)
  have upd: "(payloads demo_store)[1 := (payloads demo_store ! 1) \<lparr> sp_color := Str (js ''red'') \<rparr>] =
      [demo_entry 0 (js ''abc''), (demo_entry 1 (js ''abc'')) \<lparr> sp_color := Str (js ''red'') \<rparr>,
       demo_entry 2 (js ''xyz'')]"
    by (simp add: demo_store_def)
  from directive_targets_most_recent_match
    [of demo_store "js ''abc''" "Obj [(js ''color'', Str (js ''red''))]" Undefined Undefined
      1700000000500 1700000000500 1] m g
  have a: "processPayload (js ''abc'')
        (Some \<lparr>pl_type = js ''color'', pl_content = Obj [(js ''color'', Str (js ''red''))],
         pl_origin = Undefined\<rparr>) Undefined 1700000000500 1700000000500 demo_store =
       Inr (demo_store \<lparr> payloads :=
         (payloads demo_store)[1 := (payloads demo_store ! 1) \<lparr> sp_color := Str (js ''red'') \<rparr>] \<rparr>)"
    by blast
  from directive_targets_most_recent_match
    [of demo_store "js ''other''" "Obj [(js ''color'', Str (js ''red''))]" Undefined Undefined
      1700000000500 1700000000500 1] n
  have b: "processPayload (js ''other'')
        (Some \<lparr>pl_type = js ''color'', pl_content = Obj [(js ''color'', Str (js ''red''))],
         pl_origin = Undefined\<rparr>) Undefined 1700000000500 1700000000500 demo_store =
       Inr demo_store"
    by blast
  from n have n': "js ''other'' \<notin> sp_uuid ` set (payloads demo_store)"
    by (auto simp only: image_iff)
  show ?thesis by (intro conjI m n' a [unfolded upd] b)
qed

subsection \<open>Timestamps\<close>

text \<open>
  Claim C10. \<open>addRequest\<close> reads the clock once, before the loop, and stamps every
  entry it creates with that value: after the call (returned or thrown), an entry of the
  history either carries the call's timestamp or is an entry that was in the history
  before the call (up to the fields directives set). In a reachable state, an entry
  whose identifier had not been issued before the call carries the call's timestamp,
  whatever \<open>Date.now()\<close> read when its identifier was built.
\<close>

theorem batch_entries_share_timestamp:
  "(\<forall>p \<in> set (payloads (final (addRequest timestamp clock request s))).
      sp_timestamp p = timestamp \<or> stamp p \<in> stamp ` set (payloads s))
   \<and> (reach s ids \<longrightarrow>
      (\<forall>p \<in> set (payloads (final (addRequest timestamp clock request s))).
         sp_id p \<notin> set ids \<longrightarrow> sp_timestamp p = timestamp))"
proof (intro conjI ballI impI)
  fix p
  assume "p \<in> set (payloads (final (addRequest timestamp clock request s)))"
  then show "sp_timestamp p = timestamp \<or> stamp p \<in> stamp ` set (payloads s)"
    by (rule addRequest_stamps)
next
  fix p
  assume r: "reach s ids"
    and p: "p \<in> set (payloads (final (addRequest timestamp clock request s)))"
    and new: "sp_id p \<notin> set ids"
  from addRequest_stamps [OF p] show "sp_timestamp p = timestamp"
  proof
    assume "stamp p \<in> stamp ` set (payloads s)"
    then obtain q where q: "q \<in> set (payloads s)" "stamp p = stamp q" by blast
    from q(2) have "sp_id (stamp p) = sp_id (stamp q)" by simp
    then have "sp_id p = sp_id q" by simp
    with reach_ids_of_entries [OF r q(1)] new show ?thesis by simp
  qed
qed

lemma log_not_directive: "js ''log'' \<notin> directive_tags"
  by (simp add: directive_tags_def js_def)

lemma demo_log_creates [simp]:
  "processPayload uuid (Some demo_log) meta timestamp now s =
     Inr (s \<lparr> payloads := payloads s @ [new_entry uuid demo_log meta timestamp now s],
              payloadCounter := Suc (payloadCounter s) \<rparr>)"
  by (rule processPayload_create) (simp add: demo_log_def log_not_directive)

lemma trim_small: "length (payloads s) \<le> MAX_PAYLOADS \<Longrightarrow> trim s = s"
  by (simp add: trim_def)

text \<open>
  Two entries created by one call, with \<open>Date.now()\<close> reading a different
  millisecond for each: both carry the call's timestamp, and only their identifiers
  differ.
\<close>

theorem batch_entries_share_timestamp_witness:
  "map sp_timestamp (payloads (final (addRequest 1700000000000 (\<lambda>i. 1700000000001 + int i)
       \<lparr> rq_uuid = js ''abc'', rq_payloads = [Some demo_log, Some demo_log], rq_meta = Undefined \<rparr>
       new_store))) = [1700000000000, 1700000000000]
   \<and> map sp_id (payloads (final (addRequest 1700000000000 (\<lambda>i. 1700000000001 + int i)
       \<lparr> rq_uuid = js ''abc'', rq_payloads = [Some demo_log, Some demo_log], rq_meta = Undefined \<rparr>
       new_store))) = [js ''1700000000001-0'', js ''1700000000002-1'']"
proof -
  let ?r = "final (addRequest 1700000000000 (\<lambda>i. 1700000000001 + int i)
       \<lparr> rq_uuid = js ''abc'', rq_payloads = [Some demo_log, Some demo_log], rq_meta = Undefined \<rparr>
       new_store)"
  have ids: "map sp_id (payloads ?r) = [js ''1700000000001-0'', js ''1700000000002-1'']"
    by (simp add: addRequest_def trim_def MAX_PAYLOADS_def notify_def new_store_def new_entry_def
        show_int_def show_nat.simps js_def)
  have len: "length (payloads ?r) = 2"
    using ids by (metis length_map length_Cons list.size(3) One_nat_def Suc_1)
  from batch_entries_share_timestamp
    [of 1700000000000 "\<lambda>i. 1700000000001 + int i"
      "\<lparr> rq_uuid = js ''abc'', rq_payloads = [Some demo_log, Some demo_log], rq_meta = Undefined \<rparr>"
      new_store "[]"] reach.start
  have "\<forall>p \<in> set (payloads ?r). sp_timestamp p = 1700000000000"
    by simp
  then have "map sp_timestamp (payloads ?r) = replicate (length (payloads ?r)) 1700000000000"
    by (simp add: map_replicate_const [symmetric] cong: map_cong)
  with len have "map sp_timestamp (payloads ?r) = [1700000000000, 1700000000000]"
    by (simp add: numeral_2_eq_2)
  with ids show ?thesis by simp
qed

subsection \<open>Retention\<close>

text \<open>
  Claim C4. When \<open>addRequest\<close> returns, the history is the history that the whole
  batch produced (\<open>processAll\<close>, which never trims) without its oldest entries: the
  last \<open>MAX_PAYLOADS\<close> of them, in their order, whatever their fields; so it holds at
  most 1000 entries.
\<close>

theorem retention_bound:
  assumes "addRequest timestamp clock request s = Inr s'"
  shows "\<exists>s1. processAll (rq_uuid request) (rq_meta request) timestamp clock 0
             (rq_payloads request) s = Inr s1
     \<and> getAllPayloads s' = drop (length (payloads s1) - MAX_PAYLOADS) (payloads s1)
     \<and> length (getAllPayloads s') = min (length (payloads s1)) MAX_PAYLOADS
     \<and> length (getAllPayloads s') \<le> 1000"
proof -
  from assms obtain s1 where
    s1: "processAll (rq_uuid request) (rq_meta request) timestamp clock 0
             (rq_payloads request) s = Inr s1"
    and s': "s' = notify (trim s1)"
    by (auto simp: addRequest_def split: sum.splits)
  from s' have p: "payloads s' = drop (length (payloads s1) - MAX_PAYLOADS) (payloads s1)"
    by (simp add: notify_def trim_def slice_last_def)
  then have "length (payloads s') = min (length (payloads s1)) MAX_PAYLOADS"
    by simp
  moreover from this have "length (payloads s') \<le> 1000"
    by (simp add: MAX_PAYLOADS_def)
  ultimately show ?thesis using s1 p by (simp add: getAllPayloads_def)
qed

lemma abc_not_zzz: "js ''abc'' \<noteq> js ''zzz''"
  by (simp add: js_def)

lemma MAX_PAYLOADS_pos: "0 < MAX_PAYLOADS"
  by (simp add: MAX_PAYLOADS_def)

text \<open>
  On the full history, one more entry evicts the oldest entry, which is the only visible
  one, and keeps the 999 hidden ones. A batch that adds an entry and removes it again
  evicts nothing: the bound is applied once, after the batch.
\<close>

theorem retention_bound_witness:
  "getAllPayloads (final (addRequest 1700000000500 (\<lambda>i. 1700000000500)
       \<lparr> rq_uuid = js ''zzz'', rq_payloads = [Some demo_log], rq_meta = Undefined \<rparr> full_store)) =
     map aged_entry [1..<MAX_PAYLOADS] @
       [new_entry (js ''zzz'') demo_log Undefined 1700000000500 1700000000500 full_store]
   \<and> length (getAllPayloads (final (addRequest 1700000000500 (\<lambda>i. 1700000000500)
       \<lparr> rq_uuid = js ''zzz'', rq_payloads = [Some demo_log], rq_meta = Undefined \<rparr> full_store))) = 1000
   \<and> getAllPayloads (final (addRequest 1700000000500 (\<lambda>i. 1700000000500)
       \<lparr> rq_uuid = js ''zzz'', rq_payloads = [Some demo_log, Some demo_remove], rq_meta = Undefined \<rparr>
       full_store)) = map aged_entry [0..<MAX_PAYLOADS]"
proof -
  let ?rq = "\<lparr> rq_uuid = js ''zzz'', rq_payloads = [Some demo_log], rq_meta = Undefined \<rparr>"
  let ?e = "new_entry (js ''zzz'') demo_log Undefined 1700000000500 1700000000500 full_store"
  let ?s1 = "full_store \<lparr> payloads := payloads full_store @ [?e],
      payloadCounter := Suc (payloadCounter full_store) \<rparr>"
  have run: "addRequest 1700000000500 (\<lambda>i. 1700000000500) ?rq full_store = Inr (notify (trim ?s1))"
    by (simp add: addRequest_def)
  have all: "processAll (rq_uuid ?rq) (rq_meta ?rq) 1700000000500 (\<lambda>i. 1700000000500) 0
      (rq_payloads ?rq) full_store = Inr ?s1"
    by simp
  from retention_bound [OF run] all
  have a: "getAllPayloads (notify (trim ?s1)) = drop (length (payloads ?s1) - MAX_PAYLOADS) (payloads ?s1)"
    and b: "length (getAllPayloads (notify (trim ?s1))) \<le> 1000"
    by auto
  have "drop (length (payloads ?s1) - MAX_PAYLOADS) (payloads ?s1) =
      map aged_entry [1..<MAX_PAYLOADS] @ [?e]"
    using MAX_PAYLOADS_pos by (simp add: full_store_def drop_map)
  with a have c: "getAllPayloads (notify (trim ?s1)) = map aged_entry [1..<MAX_PAYLOADS] @ [?e]"
    by simp
  then have d: "length (getAllPayloads (notify (trim ?s1))) = 1000"
    by (simp add: MAX_PAYLOADS_def)
  have rmtype: "pl_type demo_remove = js ''remove''"
    by (simp add: demo_remove_def)
  have keep: "filter (\<lambda>p. sp_uuid p \<noteq> js ''zzz'') (payloads full_store) = payloads full_store"
    using abc_not_zzz by (simp add: full_store_def filter_map o_def aged_entry_def demo_entry_def)
  have len: "length (payloads full_store) = MAX_PAYLOADS"
    by (simp add: full_store_def)
  have u: "sp_uuid ?e = js ''zzz''"
    by (simp add: new_entry_def)
  have "getAllPayloads (final (addRequest 1700000000500 (\<lambda>i. 1700000000500)
       \<lparr> rq_uuid = js ''zzz'', rq_payloads = [Some demo_log, Some demo_remove], rq_meta = Undefined \<rparr>
       full_store)) = payloads full_store"
    by (simp add: addRequest_def processPayload_remove rmtype keep len u trim_def notify_def
        getAllPayloads_def)
  then have e: "getAllPayloads (final (addRequest 1700000000500 (\<lambda>i. 1700000000500)
       \<lparr> rq_uuid = js ''zzz'', rq_payloads = [Some demo_log, Some demo_remove], rq_meta = Undefined \<rparr>
       full_store)) = map aged_entry [0..<MAX_PAYLOADS]"
    by (simp add: full_store_def)
  from run c d e show ?thesis by simp
qed

subsection \<open>Screens\<close>

lemma processPayload_directive_stamps:
  assumes "pl_type payload \<in> directive_tags"
    and "processPayload uuid (Some payload) meta timestamp now s = Inr s'"
  shows "stamp ` set (payloads s') \<subseteq> stamp ` set (payloads s)"
proof -
  from processPayload_directive [OF assms]
  have "subseq (map stamp (payloads s')) (map stamp (payloads s))" by simp
  then have "set (map stamp (payloads s')) \<subseteq> set (map stamp (payloads s))"
    by (rule subseq_set)
  then show ?thesis by simp
qed

text \<open>
  Claim C8. A \<open>new_screen\<close> event whose content is not \<open>null\<close> or missing sets
  \<open>currentScreen\<close> to the content's \<open>name\<close>, whatever the correlation id of the
  batch, and leaves the history alone; an entry created after it carries that value as
  its screen; and no event changes the screen of an entry that exists already: after any
  event, an entry of the history is an earlier entry with the screen it had, or the entry
  just created, stamped with the current screen.
\<close>

theorem switch_screen_stamps_later_entries:
  "(get_prop content (js ''name'') = Inr v \<longrightarrow>
      processPayload uuid (Some \<lparr>pl_type = js ''new_screen'', pl_content = content, pl_origin = origin\<rparr>)
        meta timestamp now s = Inr (s \<lparr> currentScreen := v \<rparr>))
   \<and> (pl_type ev \<notin> directive_tags \<longrightarrow>
      processPayload uuid' (Some ev) meta' timestamp' now' (s \<lparr> currentScreen := v \<rparr>) =
         Inr (s \<lparr> currentScreen := v,
                payloads := payloads s @
                  [new_entry uuid' ev meta' timestamp' now' (s \<lparr> currentScreen := v \<rparr>)],
                payloadCounter := Suc (payloadCounter s) \<rparr>)
      \<and> sp_screen (new_entry uuid' ev meta' timestamp' now' (s \<lparr> currentScreen := v \<rparr>)) = v)
   \<and> (processPayload uuid' (Some ev) meta' timestamp' now' s = Inr s' \<longrightarrow>
      (\<forall>p \<in> set (payloads s').
         (\<exists>q \<in> set (payloads s). stamp p = stamp q \<and> sp_screen p = sp_screen q)
         \<or> (pl_type ev \<notin> directive_tags \<and> sp_screen p = currentScreen s)))"
proof -
  have a: "get_prop content (js ''name'') = Inr v \<longrightarrow>
      processPayload uuid (Some \<lparr>pl_type = js ''new_screen'', pl_content = content, pl_origin = origin\<rparr>)
        meta timestamp now s = Inr (s \<lparr> currentScreen := v \<rparr>)"
    by (simp add: processPayload_new_screen)
  have b: "pl_type ev \<notin> directive_tags \<longrightarrow>
      processPayload uuid' (Some ev) meta' timestamp' now' (s \<lparr> currentScreen := v \<rparr>) =
         Inr (s \<lparr> currentScreen := v,
                payloads := payloads s @
                  [new_entry uuid' ev meta' timestamp' now' (s \<lparr> currentScreen := v \<rparr>)],
                payloadCounter := Suc (payloadCounter s) \<rparr>)
      \<and> sp_screen (new_entry uuid' ev meta' timestamp' now' (s \<lparr> currentScreen := v \<rparr>)) = v"
    by (simp add: processPayload_create new_entry_def)
  have c: "processPayload uuid' (Some ev) meta' timestamp' now' s = Inr s' \<longrightarrow>
      (\<forall>p \<in> set (payloads s').
         (\<exists>q \<in> set (payloads s). stamp p = stamp q \<and> sp_screen p = sp_screen q)
         \<or> (pl_type ev \<notin> directive_tags \<and> sp_screen p = currentScreen s))"
  proof (intro impI ballI)
    fix p
    assume run: "processPayload uuid' (Some ev) meta' timestamp' now' s = Inr s'"
      and p: "p \<in> set (payloads s')"
    show "(\<exists>q \<in> set (payloads s). stamp p = stamp q \<and> sp_screen p = sp_screen q)
         \<or> (pl_type ev \<notin> directive_tags \<and> sp_screen p = currentScreen s)"
    proof (cases "pl_type ev \<in> directive_tags")
      case True
      from processPayload_directive_stamps [OF True run] p
      have "stamp p \<in> stamp ` set (payloads s)" by blast
      then obtain q where q: "q \<in> set (payloads s)" "stamp p = stamp q" by auto
      from q(2) have "sp_screen (stamp p) = sp_screen (stamp q)" by simp
      then have "sp_screen p = sp_screen q" by simp
      with q have "\<exists>q \<in> set (payloads s). stamp p = stamp q \<and> sp_screen p = sp_screen q"
        by blast
      then show ?thesis ..
    next
      case False
      with run p have "p \<in> set (payloads s) \<or> p = new_entry uuid' ev meta' timestamp' now' s"
        by (auto simp: processPayload_create)
      then show ?thesis
      proof
        assume "p \<in> set (payloads s)"
        then show ?thesis by auto
      next
        assume "p = new_entry uuid' ev meta' timestamp' now' s"
        with False show ?thesis by (simp add: new_entry_def)
      qed
    qed
  qed
  show ?thesis by (intro conjI a b c)
qed

text \<open>
  Switching to \<open>debug\<close> and logging in one batch: the three earlier entries stay on
  \<open>default\<close>, the new one is on \<open>debug\<close>.
\<close>

theorem switch_screen_stamps_later_entries_witness:
  "processPayload (js ''any'') (Some demo_new_screen) Undefined 1700000000500 1700000000500 demo_store =
     Inr (demo_store \<lparr> currentScreen := Str (js ''debug'') \<rparr>)
   \<and> map sp_screen (payloads (final (addRequest 1700000000500 (\<lambda>i. 1700000000500)
        \<lparr> rq_uuid = js ''zzz'', rq_payloads = [Some demo_new_screen, Some demo_log], rq_meta = Undefined \<rparr>
        demo_store))) =
     [Str (js ''default''), Str (js ''default''), Str (js ''default''), Str (js ''debug'')]"
proof -
  have g: "get_prop (Obj [(js ''name'', Str (js ''debug''))]) (js ''name'') = Inr (Str (js ''debug''))"
    by simp
  from switch_screen_stamps_later_entries
    [of "Obj [(js ''name'', Str (js ''debug''))]" "Str (js ''debug'')" "js ''any''" Undefined
      Undefined 1700000000500 1700000000500 demo_store] g
  have a: "processPayload (js ''any'') (Some demo_new_screen) Undefined 1700000000500 1700000000500
      demo_store = Inr (demo_store \<lparr> currentScreen := Str (js ''debug'') \<rparr>)"
    unfolding demo_new_screen_def by blast
  have a': "processPayload (js ''zzz'') (Some demo_new_screen) Undefined 1700000000500 1700000000500
      demo_store = Inr (demo_store \<lparr> currentScreen := Str (js ''debug'') \<rparr>)"
    by (simp add: processPayload_new_screen demo_new_screen_def)
  have b: "map sp_screen (payloads (final (addRequest 1700000000500 (\<lambda>i. 1700000000500)
        \<lparr> rq_uuid = js ''zzz'', rq_payloads = [Some demo_new_screen, Some demo_log], rq_meta = Undefined \<rparr>
        demo_store))) =
     [Str (js ''default''), Str (js ''default''), Str (js ''default''), Str (js ''debug'')]"
    by (simp add: addRequest_def a' trim_def MAX_PAYLOADS_def notify_def new_entry_def)
      (simp add: demo_store_def demo_entry_def)
  show ?thesis by (intro conjI a b)
qed

subsection \<open>Hide and remove\<close>

text \<open>
  Claim C9. A \<open>hide\<close> event marks the most recent entry of its correlation id: the
  all-entries view keeps it (hidden) at its place, and the non-hidden view is the
  non-hidden view of the other entries. A \<open>remove\<close> event deletes every entry of its
  correlation id from both views and keeps the others, in order.
\<close>

theorem hide_keeps_remove_deletes:
  "(most_recent_match uuid (payloads s) i \<longrightarrow>
      (\<exists>s'. processPayload uuid (Some \<lparr>pl_type = js ''hide'', pl_content = content, pl_origin = origin\<rparr>)
               meta timestamp now s = Inr s'
         \<and> getAllPayloads s' = (payloads s)[i := (payloads s ! i) \<lparr> sp_hidden := True \<rparr>]
         \<and> length (getAllPayloads s') = length (getAllPayloads s)
         \<and> getPayloads s' =
             filter visible (take i (payloads s)) @ filter visible (drop (Suc i) (payloads s))))
   \<and> (\<exists>s'. processPayload uuid (Some \<lparr>pl_type = js ''remove'', pl_content = content, pl_origin = origin\<rparr>)
               meta timestamp now s = Inr s'
         \<and> getAllPayloads s' = filter (\<lambda>p. sp_uuid p \<noteq> uuid) (getAllPayloads s)
         \<and> getPayloads s' = filter (\<lambda>p. sp_uuid p \<noteq> uuid) (getPayloads s)
         \<and> uuid \<notin> sp_uuid ` set (getAllPayloads s') \<and> uuid \<notin> sp_uuid ` set (getPayloads s'))"
proof (intro conjI impI)
  assume m: "most_recent_match uuid (payloads s) i"
  let ?ps = "payloads s"
  let ?s' = "s \<lparr> payloads := ?ps[i := (?ps ! i) \<lparr> sp_hidden := True \<rparr>] \<rparr>"
  from m have i: "i < length ?ps" by (simp add: most_recent_match_def)
  have run: "processPayload uuid (Some \<lparr>pl_type = js ''hide'', pl_content = content, pl_origin = origin\<rparr>)
               meta timestamp now s = Inr ?s'"
    using m by (simp add: processPayload_hide applyToPayload_match set_hidden_def)
  have "?ps[i := (?ps ! i) \<lparr> sp_hidden := True \<rparr>] =
      take i ?ps @ (?ps ! i) \<lparr> sp_hidden := True \<rparr> # drop (Suc i) ?ps"
    using i by (rule upd_conv_take_nth_drop)
  then have "getPayloads ?s' = filter visible (take i ?ps) @ filter visible (drop (Suc i) ?ps)"
    by (simp add: getPayloads_def visible_def [abs_def])
  with run show "\<exists>s'. processPayload uuid (Some \<lparr>pl_type = js ''hide'', pl_content = content, pl_origin = origin\<rparr>)
               meta timestamp now s = Inr s'
         \<and> getAllPayloads s' = ?ps[i := (?ps ! i) \<lparr> sp_hidden := True \<rparr>]
         \<and> length (getAllPayloads s') = length (getAllPayloads s)
         \<and> getPayloads s' = filter visible (take i ?ps) @ filter visible (drop (Suc i) ?ps)"
    by (simp add: getAllPayloads_def)
next
  show "\<exists>s'. processPayload uuid (Some \<lparr>pl_type = js ''remove'', pl_content = content, pl_origin = origin\<rparr>)
               meta timestamp now s = Inr s'
         \<and> getAllPayloads s' = filter (\<lambda>p. sp_uuid p \<noteq> uuid) (getAllPayloads s)
         \<and> getPayloads s' = filter (\<lambda>p. sp_uuid p \<noteq> uuid) (getPayloads s)
         \<and> uuid \<notin> sp_uuid ` set (getAllPayloads s') \<and> uuid \<notin> sp_uuid ` set (getPayloads s')"
    by (auto simp: processPayload_remove getAllPayloads_def getPayloads_def conj_commute)
qed

text \<open>
  On the example history, hiding \<open>abc\<close> hides the second entry only; removing
  \<open>abc\<close> deletes the first two entries.
\<close>

theorem hide_keeps_remove_deletes_witness:
  "getAllPayloads (final (addRequest 1700000000500 (\<lambda>i. 1700000000500)
      \<lparr> rq_uuid = js ''abc'',
        rq_payloads = [Some \<lparr>pl_type = js ''hide'', pl_content = Obj [], pl_origin = Undefined\<rparr>],
        rq_meta = Undefined \<rparr> demo_store)) =
     [demo_entry 0 (js ''abc''), (demo_entry 1 (js ''abc'')) \<lparr> sp_hidden := True \<rparr>,
      demo_entry 2 (js ''xyz'')]
   \<and> getPayloads (final (addRequest 1700000000500 (\<lambda>i. 1700000000500)
      \<lparr> rq_uuid = js ''abc'',
        rq_payloads = [Some \<lparr>pl_type = js ''hide'', pl_content = Obj [], pl_origin = Undefined\<rparr>],
        rq_meta = Undefined \<rparr> demo_store)) =
     [demo_entry 0 (js ''abc''), demo_entry 2 (js ''xyz'')]
   \<and> getAllPayloads (final (addRequest 1700000000500 (\<lambda>i. 1700000000500)
      \<lparr> rq_uuid = js ''abc'',
        rq_payloads = [Some \<lparr>pl_type = js ''remove'', pl_content = Obj [], pl_origin = Undefined\<rparr>],
        rq_meta = Undefined \<rparr> demo_store)) = [demo_entry 2 (js ''xyz'')]
   \<and> getPayloads (final (addRequest 1700000000500 (\<lambda>i. 1700000000500)
      \<lparr> rq_uuid = js ''abc'',
        rq_payloads = [Some \<lparr>pl_type = js ''remove'', pl_content = Obj [], pl_origin = Undefined\<rparr>],
        rq_meta = Undefined \<rparr> demo_store)) = [demo_entry 2 (js ''xyz'')]"
proof -
  let ?hide = "\<lparr>pl_type = js ''hide'', pl_content = Obj [], pl_origin = Undefined\<rparr>"
  let ?remove = "\<lparr>pl_type = js ''remove'', pl_content = Obj [], pl_origin = Undefined\<rparr>"
  have m: "most_recent_match (js ''abc'') (payloads demo_store) 1"
    by (simp add: most_recent_match_def demo_store_def demo_entry_def js_def)
  have vis: "visible (demo_entry 0 (js ''abc''))" "visible (demo_entry 2 (js ''xyz''))"
    by (simp_all add: visible_def demo_entry_def)
  have ne: "js ''abc'' \<noteq> js ''xyz''" by (simp add: js_def)
  from hide_keeps_remove_deletes
    [of "js ''abc''" demo_store 1 "Obj []" Undefined Undefined 1700000000500 1700000000500] m
  obtain s1 s2 where
    h: "processPayload (js ''abc'') (Some ?hide) Undefined 1700000000500 1700000000500 demo_store = Inr s1"
       "getAllPayloads s1 =
          (payloads demo_store)[1 := (payloads demo_store ! 1) \<lparr> sp_hidden := True \<rparr>]"
       "getPayloads s1 = filter visible (take 1 (payloads demo_store)) @
          filter visible (drop (Suc 1) (payloads demo_store))"
    and r: "processPayload (js ''abc'') (Some ?remove) Undefined 1700000000500 1700000000500 demo_store = Inr s2"
       "getAllPayloads s2 = filter (\<lambda>p. sp_uuid p \<noteq> js ''abc'') (getAllPayloads demo_store)"
       "getPayloads s2 = filter (\<lambda>p. sp_uuid p \<noteq> js ''abc'') (getPayloads demo_store)"
    by blast
  have small: "\<And>s. length (payloads s) \<le> 3 \<Longrightarrow> payloads (notify (trim s)) = payloads s"
     "\<And>s. getPayloads (notify s) = getPayloads s"
    by (simp_all add: trim_def MAX_PAYLOADS_def notify_def getPayloads_def)
  have l1: "length (payloads s1) \<le> 3"
    using h(2) by (simp add: getAllPayloads_def demo_store_def)
  have l2: "length (payloads s2) \<le> 3"
    using r(2) by (simp add: getAllPayloads_def demo_store_def)
  have t1: "trim s1 = s1" using l1 by (simp add: trim_def MAX_PAYLOADS_def)
  have t2: "trim s2 = s2" using l2 by (simp add: trim_def MAX_PAYLOADS_def)
  have f1: "final (addRequest 1700000000500 (\<lambda>i. 1700000000500)
      \<lparr> rq_uuid = js ''abc'', rq_payloads = [Some ?hide], rq_meta = Undefined \<rparr> demo_store) = notify s1"
    by (simp add: addRequest_def h(1) t1)
  have f2: "final (addRequest 1700000000500 (\<lambda>i. 1700000000500)
      \<lparr> rq_uuid = js ''abc'', rq_payloads = [Some ?remove], rq_meta = Undefined \<rparr> demo_store) = notify s2"
    by (simp add: addRequest_def r(1) t2)
  have n: "\<And>s. getAllPayloads (notify s) = getAllPayloads s" "\<And>s. getPayloads (notify s) = getPayloads s"
    by (simp_all add: notify_def getAllPayloads_def getPayloads_def)
  have a: "getAllPayloads s1 = [demo_entry 0 (js ''abc''),
      (demo_entry 1 (js ''abc'')) \<lparr> sp_hidden := True \<rparr>, demo_entry 2 (js ''xyz'')]"
    using h(2) by (simp add: demo_store_def)
  have b: "getPayloads s1 = [demo_entry 0 (js ''abc''), demo_entry 2 (js ''xyz'')]"
    using h(3) vis by (simp add: demo_store_def)
  have c: "getAllPayloads s2 = [demo_entry 2 (js ''xyz'')]"
    using r(2) ne by (simp add: getAllPayloads_def demo_store_def demo_entry_def)
  have d: "getPayloads s2 = [demo_entry 2 (js ''xyz'')]"
    using r(3) ne by (simp add: getPayloads_def demo_store_def demo_entry_def)
  show ?thesis unfolding f1 f2 n by (intro conjI a b c d)
qed

subsection \<open>Clear-all\<close>

lemma processAll_append:
  "processAll uuid meta timestamp clock i (xs @ ys) s =
     (case processAll uuid meta timestamp clock i xs s of
        Inl e \<Rightarrow> Inl e
      | Inr s1 \<Rightarrow> processAll uuid meta timestamp clock (i + length xs) ys s1)"
  by (induction xs arbitrary: i s) (auto split: sum.splits)

lemma getScreens_empty: "payloads s = [] \<Longrightarrow> getScreens s = []"
  by (simp add: getScreens_def)

lemma reach_counters_below:
  assumes "reach s ids" "i \<in> set ids"
  shows "id_counter i < payloadCounter s"
proof -
  from reach_history_ok [OF assms(1)] have "map id_counter ids = [0..<payloadCounter s]"
    by (simp add: history_ok_def)
  then have "set (map id_counter ids) = {0..<payloadCounter s}"
    by (metis atLeastLessThan_upt)
  with assms(2) show ?thesis by auto
qed

text \<open>
  Claim C6, as amended. A \<open>clear_all\<close> event empties the history and changes nothing
  else: the counter and the current screen stay. So the all-entries view and the set of
  screens are empty; in a batch, the entries that earlier events of the batch added are
  gone and the later events work on the empty history; and the next entry created takes
  the current screen, and an identifier that was never issued before, whose counter is
  greater than the counter of every identifier issued before.
\<close>

theorem clear_all_discards_history_only:
  "processPayload uuid (Some \<lparr>pl_type = js ''clear_all'', pl_content = content, pl_origin = origin\<rparr>)
      meta timestamp now s = Inr (s \<lparr> payloads := [] \<rparr>)
   \<and> getAllPayloads (s \<lparr> payloads := [] \<rparr>) = []
   \<and> getScreens (s \<lparr> payloads := [] \<rparr>) = []
   \<and> payloadCounter (s \<lparr> payloads := [] \<rparr>) = payloadCounter s
   \<and> getCurrentScreen (s \<lparr> payloads := [] \<rparr>) = getCurrentScreen s
   \<and> (processAll uuid meta timestamp clock i before s = Inr s1 \<longrightarrow>
        processAll uuid meta timestamp clock i
          (before @ Some \<lparr>pl_type = js ''clear_all'', pl_content = content, pl_origin = origin\<rparr>
             # after) s =
        processAll uuid meta timestamp clock (Suc (i + length before)) after (s1 \<lparr> payloads := [] \<rparr>))
   \<and> (pl_type ev \<notin> directive_tags \<longrightarrow>
        processPayload uuid' (Some ev) meta' timestamp' now' (s \<lparr> payloads := [] \<rparr>) =
          Inr (s \<lparr> payloads := [new_entry uuid' ev meta' timestamp' now' s],
                 payloadCounter := Suc (payloadCounter s) \<rparr>)
        \<and> sp_screen (new_entry uuid' ev meta' timestamp' now' s) = currentScreen s
        \<and> id_counter (sp_id (new_entry uuid' ev meta' timestamp' now' s)) = payloadCounter s
        \<and> (reach s ids \<longrightarrow>
             sp_id (new_entry uuid' ev meta' timestamp' now' s) \<notin> set ids
             \<and> (\<forall>i \<in> set ids. id_counter i < id_counter (sp_id (new_entry uuid' ev meta' timestamp' now' s)))))"
proof -
  let ?clear = "\<lparr>pl_type = js ''clear_all'', pl_content = content, pl_origin = origin\<rparr>"
  have a: "processPayload uuid (Some ?clear) meta timestamp now s = Inr (s \<lparr> payloads := [] \<rparr>)"
    by (simp add: processPayload_clear_all)
  have b: "getAllPayloads (s \<lparr> payloads := [] \<rparr>) = []"
    by (simp add: getAllPayloads_def)
  have c: "getScreens (s \<lparr> payloads := [] \<rparr>) = []"
    by (simp add: getScreens_empty)
  have d: "payloadCounter (s \<lparr> payloads := [] \<rparr>) = payloadCounter s"
    by simp
  have e: "getCurrentScreen (s \<lparr> payloads := [] \<rparr>) = getCurrentScreen s"
    by (simp add: getCurrentScreen_def)
  have f: "processAll uuid meta timestamp clock i before s = Inr s1 \<longrightarrow>
        processAll uuid meta timestamp clock i (before @ Some ?clear # after) s =
        processAll uuid meta timestamp clock (Suc (i + length before)) after (s1 \<lparr> payloads := [] \<rparr>)"
    by (simp add: processAll_append processPayload_clear_all)
  have g: "pl_type ev \<notin> directive_tags \<longrightarrow>
        processPayload uuid' (Some ev) meta' timestamp' now' (s \<lparr> payloads := [] \<rparr>) =
          Inr (s \<lparr> payloads := [new_entry uuid' ev meta' timestamp' now' s],
                 payloadCounter := Suc (payloadCounter s) \<rparr>)
        \<and> sp_screen (new_entry uuid' ev meta' timestamp' now' s) = currentScreen s
        \<and> id_counter (sp_id (new_entry uuid' ev meta' timestamp' now' s)) = payloadCounter s
        \<and> (reach s ids \<longrightarrow>
             sp_id (new_entry uuid' ev meta' timestamp' now' s) \<notin> set ids
             \<and> (\<forall>i \<in> set ids. id_counter i < id_counter (sp_id (new_entry uuid' ev meta' timestamp' now' s))))"
  proof (intro impI conjI ballI)
    assume "pl_type ev \<notin> directive_tags"
    then show "processPayload uuid' (Some ev) meta' timestamp' now' (s \<lparr> payloads := [] \<rparr>) =
          Inr (s \<lparr> payloads := [new_entry uuid' ev meta' timestamp' now' s],
                 payloadCounter := Suc (payloadCounter s) \<rparr>)"
      by (simp add: processPayload_create new_entry_def)
  next
    show "sp_screen (new_entry uuid' ev meta' timestamp' now' s) = currentScreen s"
      by (simp add: new_entry_def)
  next
    show "id_counter (sp_id (new_entry uuid' ev meta' timestamp' now' s)) = payloadCounter s"
      by simp
  next
    assume "reach s ids"
    then show "sp_id (new_entry uuid' ev meta' timestamp' now' s) \<notin> set ids"
      using reach_counters_below by fastforce
  next
    fix i
    assume "reach s ids" "i \<in> set ids"
    then show "id_counter i < id_counter (sp_id (new_entry uuid' ev meta' timestamp' now' s))"
      by (simp add: reach_counters_below)
  qed
  show ?thesis by (intro conjI a b c d e f g)
qed

lemma demo_log_not_directive: "pl_type demo_log \<notin> directive_tags"
  by (simp add: demo_log_def log_not_directive)

lemma reach_log:
  assumes "reach s ids"
  shows "reach (s \<lparr> payloads := payloads s @ [new_entry uuid demo_log meta timestamp now s],
              payloadCounter := Suc (payloadCounter s) \<rparr>)
           (ids @ [sp_id (new_entry uuid demo_log meta timestamp now s)])"
  using reach.event [OF assms demo_log_creates [of uuid meta timestamp now s]]
  by (simp add: demo_log_not_directive)

lemma ids_ten_logs:
  "map sp_id (payloads (final (addRequest 1700000000000 (\<lambda>i. 1700000000000) ten_logs new_store))) =
     [js ''1700000000000-0'', js ''1700000000000-1'', js ''1700000000000-2'', js ''1700000000000-3'',
      js ''1700000000000-4'', js ''1700000000000-5'', js ''1700000000000-6'', js ''1700000000000-7'',
      js ''1700000000000-8'', js ''1700000000000-9'']"
  by (simp add: ten_logs_def addRequest_def trim_def MAX_PAYLOADS_def notify_def new_store_def
      new_entry_def show_int_def show_nat.simps js_def)

lemma counter_ten_logs:
  "payloadCounter (final (addRequest 1700000000000 (\<lambda>i. 1700000000000) ten_logs new_store)) = 10"
  by (simp add: ten_logs_def addRequest_def trim_def MAX_PAYLOADS_def notify_def new_store_def)

text \<open>
  The identifier itself is not greater than the earlier ones, in the order JavaScript
  gives to strings: after ten entries created in one millisecond and a clear-all, the
  next identifier ends in \<open>-10\<close> and sorts before the one ending in \<open>-9\<close>.
\<close>

theorem clear_all_next_id_counterexample:
  "map sp_id (getAllPayloads
      (final (addRequest 1700000000000 (\<lambda>i. 1700000000000) ten_logs new_store))) ! 9 =
     js ''1700000000000-9''
   \<and> map sp_id (getAllPayloads
      (final (addRequest 1700000000000 (\<lambda>i. 1700000000000)
         \<lparr> rq_uuid = js ''abc'', rq_payloads = [Some demo_clear_all, Some demo_log], rq_meta = Undefined \<rparr>
         (final (addRequest 1700000000000 (\<lambda>i. 1700000000000) ten_logs new_store))))) =
     [js ''1700000000000-10'']
   \<and> js_less (js ''1700000000000-10'') (js ''1700000000000-9'')
   \<and> \<not> js_less (js ''1700000000000-9'') (js ''1700000000000-10'')"
proof -
  let ?s = "final (addRequest 1700000000000 (\<lambda>i. 1700000000000) ten_logs new_store)"
  have a: "map sp_id (getAllPayloads ?s) ! 9 = js ''1700000000000-9''"
    unfolding getAllPayloads_def ids_ten_logs by simp
  have cl: "processPayload (js ''abc'') (Some demo_clear_all) Undefined 1700000000000 1700000000000 ?s =
      Inr (?s \<lparr> payloads := [] \<rparr>)"
    by (rule processPayload_clear_all) (simp add: demo_clear_all_def)
  have b: "map sp_id (getAllPayloads
      (final (addRequest 1700000000000 (\<lambda>i. 1700000000000)
         \<lparr> rq_uuid = js ''abc'', rq_payloads = [Some demo_clear_all, Some demo_log], rq_meta = Undefined \<rparr> ?s))) =
     [js ''1700000000000-10'']"
    by (simp add: addRequest_def [of _ _ "\<lparr> rq_uuid = js ''abc'',
          rq_payloads = [Some demo_clear_all, Some demo_log], rq_meta = Undefined \<rparr>"] cl trim_def
        MAX_PAYLOADS_def notify_def getAllPayloads_def new_entry_def counter_ten_logs)
      (simp add: show_int_def show_nat.simps js_def)
  have c: "js_less (js ''1700000000000-10'') (js ''1700000000000-9'')"
    by (simp add: js_def)
  have d: "\<not> js_less (js ''1700000000000-9'') (js ''1700000000000-10'')"
    by (simp add: js_def)
  show ?thesis by (intro conjI a b c d)
qed

lemma reach_one_log_store: "reach one_log_store [js ''1700000000000-0'']"
proof -
  have "sp_id (new_entry (js ''abc'') demo_log Undefined 1700000000000 1700000000000 new_store) =
      js ''1700000000000-0''"
    by (simp add: new_entry_def new_store_def show_int_def show_nat.simps js_def)
  with reach_log [OF reach.start, of "js ''abc''" Undefined 1700000000000 1700000000000]
  show ?thesis by (simp add: one_log_store_def)
qed

text \<open>
  One batch: a log, a clear-all, a log. After the clear-all the history and the screens
  are empty; the batch ends with the second entry alone, numbered 1.
\<close>

theorem clear_all_discards_history_only_witness:
  "processAll (js ''abc'') Undefined 1700000000000 (\<lambda>i. 1700000000000) 0
      [Some demo_log, Some demo_clear_all] new_store = Inr (one_log_store \<lparr> payloads := [] \<rparr>)
   \<and> getAllPayloads (one_log_store \<lparr> payloads := [] \<rparr>) = []
   \<and> getScreens (one_log_store \<lparr> payloads := [] \<rparr>) = []
   \<and> processAll (js ''abc'') Undefined 1700000000000 (\<lambda>i. 1700000000000) 0
      [Some demo_log, Some demo_clear_all, Some demo_log] new_store =
     Inr (one_log_store \<lparr> payloads :=
            [new_entry (js ''abc'') demo_log Undefined 1700000000000 1700000000000 one_log_store],
          payloadCounter := 2 \<rparr>)
   \<and> sp_id (new_entry (js ''abc'') demo_log Undefined 1700000000000 1700000000000 one_log_store) =
       js ''1700000000000-1''
   \<and> sp_id (new_entry (js ''abc'') demo_log Undefined 1700000000000 1700000000000 one_log_store)
       \<notin> set [js ''1700000000000-0'']
   \<and> id_counter (js ''1700000000000-0'') <
       id_counter (sp_id (new_entry (js ''abc'') demo_log Undefined 1700000000000 1700000000000
         one_log_store))"
proof -
  let ?clk = "\<lambda>i::nat. 1700000000000::int"
  have before: "processAll (js ''abc'') Undefined 1700000000000 ?clk 0 [Some demo_log] new_store =
      Inr one_log_store"
    by (simp add: one_log_store_def)
  note inst1 = clear_all_discards_history_only
    [of "js ''abc''" "Obj []" Undefined Undefined 1700000000000 1700000000000 new_store
      ?clk 0 "[Some demo_log]" one_log_store _ demo_log "js ''abc''" Undefined 1700000000000
      1700000000000 "[]", folded demo_clear_all_def]
  note inst2 = clear_all_discards_history_only
    [of "js ''abc''" "Obj []" Undefined Undefined 1700000000000 1700000000000 one_log_store
      ?clk 0 "[]" one_log_store "[]" demo_log "js ''abc''" Undefined 1700000000000
      1700000000000 "[js ''1700000000000-0'']", folded demo_clear_all_def]
  from inst1 [of "[]"] before
  have a: "processAll (js ''abc'') Undefined 1700000000000 ?clk 0 [Some demo_log, Some demo_clear_all]
      new_store = Inr (one_log_store \<lparr> payloads := [] \<rparr>)"
    by simp
  from inst2 have b: "getAllPayloads (one_log_store \<lparr> payloads := [] \<rparr>) = []"
    and c: "getScreens (one_log_store \<lparr> payloads := [] \<rparr>) = []"
    by blast+
  have cnt: "payloadCounter one_log_store = 1"
    by (simp add: one_log_store_def new_store_def)
  from inst2 demo_log_not_directive
  have d0: "processPayload (js ''abc'') (Some demo_log) Undefined 1700000000000 1700000000000
      (one_log_store \<lparr> payloads := [] \<rparr>) =
     Inr (one_log_store \<lparr> payloads :=
            [new_entry (js ''abc'') demo_log Undefined 1700000000000 1700000000000 one_log_store],
          payloadCounter := Suc (payloadCounter one_log_store) \<rparr>)"
    by blast
  from inst1 [of "[Some demo_log]"] before
  have "processAll (js ''abc'') Undefined 1700000000000 ?clk 0
      [Some demo_log, Some demo_clear_all, Some demo_log] new_store =
      processAll (js ''abc'') Undefined 1700000000000 ?clk 2 [Some demo_log]
        (one_log_store \<lparr> payloads := [] \<rparr>)"
    by simp
  also have "\<dots> = Inr (one_log_store \<lparr> payloads :=
            [new_entry (js ''abc'') demo_log Undefined 1700000000000 1700000000000 one_log_store],
          payloadCounter := 2 \<rparr>)"
    by (simp only: processAll.simps d0 sum.case cnt) simp
  finally have d: "processAll (js ''abc'') Undefined 1700000000000 ?clk 0
      [Some demo_log, Some demo_clear_all, Some demo_log] new_store =
     Inr (one_log_store \<lparr> payloads :=
            [new_entry (js ''abc'') demo_log Undefined 1700000000000 1700000000000 one_log_store],
          payloadCounter := 2 \<rparr>)" .
  have e: "sp_id (new_entry (js ''abc'') demo_log Undefined 1700000000000 1700000000000
      one_log_store) = js ''1700000000000-1''"
    by (simp add: new_entry_def cnt show_int_def show_nat.simps js_def)
  from inst2 demo_log_not_directive reach_one_log_store
  have f: "sp_id (new_entry (js ''abc'') demo_log Undefined 1700000000000 1700000000000 one_log_store)
       \<notin> set [js ''1700000000000-0'']"
    and g0: "\<forall>i \<in> set [js ''1700000000000-0''].
       id_counter i < id_counter (sp_id (new_entry (js ''abc'') demo_log Undefined 1700000000000
         1700000000000 one_log_store))"
    by blast+
  from g0 have g: "id_counter (js ''1700000000000-0'') <
       id_counter (sp_id (new_entry (js ''abc'') demo_log Undefined 1700000000000 1700000000000
         one_log_store))"
    by simp
  show ?thesis by (intro conjI a b c d e f g)
qed

subsection \<open>Throwing\<close>

lemma get_prop_throws: "get_prop c k = Inl TypeError \<longleftrightarrow> nullish c"
  by (cases c) (auto simp: nullish_def)

lemma get_prop_nullish: "nullish c \<Longrightarrow> get_prop c k = Inl TypeError"
  by (cases c) (auto simp: nullish_def)

lemma applyFrom_throwing:
  assumes "\<And>p. m p = Inl TypeError"
  shows "n \<le> length ps \<Longrightarrow>
    applyFrom n uuid m ps = (if \<exists>j<n. sp_uuid (ps ! j) = uuid then Inl TypeError else Inr ps)"
proof (induction n)
  case 0
  then show ?case by simp
next
  case (Suc n)
  then show ?case using assms by (auto simp: less_Suc_eq)
qed

lemma applyFrom_returning:
  assumes "\<And>p. \<exists>p'. m p = Inr p'"
  shows "\<exists>ps'. applyFrom n uuid m ps = Inr ps'"
proof (induction n)
  case 0
  then show ?case by simp
next
  case (Suc n)
  from assms obtain p' where "m (ps ! n) = Inr p'" by blast
  with Suc show ?case by auto
qed

lemma applyToPayload_throwing:
  assumes "\<And>p. m p = Inl TypeError"
  shows "applyToPayload uuid m s =
    (if uuid \<in> sp_uuid ` set (payloads s) then Inl TypeError else Inr s)"
proof -
  have "(\<exists>j<length (payloads s). sp_uuid (payloads s ! j) = uuid) \<longleftrightarrow>
      uuid \<in> sp_uuid ` set (payloads s)"
  proof
    assume "\<exists>j<length (payloads s). sp_uuid (payloads s ! j) = uuid"
    then obtain j where "j < length (payloads s)" "sp_uuid (payloads s ! j) = uuid" by blast
    then show "uuid \<in> sp_uuid ` set (payloads s)" by (metis image_eqI nth_mem)
  next
    assume "uuid \<in> sp_uuid ` set (payloads s)"
    then obtain p where "p \<in> set (payloads s)" "sp_uuid p = uuid" by blast
    then show "\<exists>j<length (payloads s). sp_uuid (payloads s ! j) = uuid"
      by (metis in_set_conv_nth)
  qed
  with applyFrom_throwing [of m "length (payloads s)" "payloads s" uuid, OF assms]
  show ?thesis by (simp add: applyToPayload_def)
qed

lemma applyToPayload_returning:
  assumes "\<And>p. \<exists>p'. m p = Inr p'"
  shows "\<exists>s'. applyToPayload uuid m s = Inr s'"
proof -
  from applyFrom_returning [of m "length (payloads s)" uuid "payloads s", OF assms]
  obtain ps' where "applyFrom (length (payloads s)) uuid m (payloads s) = Inr ps'" ..
  then show ?thesis by (simp add: applyToPayload_def)
qed

lemma setter_cases:
  "nullish c \<Longrightarrow> set_color c p = Inl TypeError"
  "nullish c \<Longrightarrow> set_label c p = Inl TypeError"
  "nullish c \<Longrightarrow> set_size c p = Inl TypeError"
  "\<not> nullish c \<Longrightarrow> \<exists>p'. set_color c p = Inr p'"
  "\<not> nullish c \<Longrightarrow> \<exists>p'. set_label c p = Inr p'"
  "\<not> nullish c \<Longrightarrow> \<exists>p'. set_size c p = Inr p'"
  by (cases c; simp add: nullish_def set_color_def set_label_def set_size_def)+

lemma processPayload_throws_iff:
  "processPayload uuid (Some ev) meta timestamp now s = Inl TypeError \<longleftrightarrow>
     nullish (pl_content ev) \<and>
     (pl_type ev = js ''new_screen'' \<or>
      (pl_type ev \<in> {js ''color'', js ''label'', js ''size''} \<and>
       uuid \<in> sp_uuid ` set (payloads s)))"
proof -
  have ne: "js ''color'' \<noteq> js ''new_screen''" "js ''label'' \<noteq> js ''new_screen''"
    "js ''size'' \<noteq> js ''new_screen''" "js ''hide'' \<noteq> js ''new_screen''"
    "js ''hide'' \<noteq> js ''color''" "js ''hide'' \<noteq> js ''label''" "js ''hide'' \<noteq> js ''size''"
    "js ''clear_all'' \<noteq> js ''new_screen''" "js ''clear_all'' \<noteq> js ''color''"
    "js ''clear_all'' \<noteq> js ''label''" "js ''clear_all'' \<noteq> js ''size''"
    "js ''remove'' \<noteq> js ''new_screen''" "js ''remove'' \<noteq> js ''color''"
    "js ''remove'' \<noteq> js ''label''" "js ''remove'' \<noteq> js ''size''"
    "js ''show_app'' \<noteq> js ''new_screen''" "js ''show_app'' \<noteq> js ''color''"
    "js ''show_app'' \<noteq> js ''label''" "js ''show_app'' \<noteq> js ''size''"
    "js ''hide_app'' \<noteq> js ''new_screen''" "js ''hide_app'' \<noteq> js ''color''"
    "js ''hide_app'' \<noteq> js ''label''" "js ''hide_app'' \<noteq> js ''size''"
    "js ''confetti'' \<noteq> js ''new_screen''" "js ''confetti'' \<noteq> js ''color''"
    "js ''confetti'' \<noteq> js ''label''" "js ''confetti'' \<noteq> js ''size''"
    "js ''color'' \<noteq> js ''label''" "js ''color'' \<noteq> js ''size''" "js ''label'' \<noteq> js ''size''"
    by (simp_all add: js_def)
  show ?thesis
  proof (cases "pl_type ev \<in> directive_tags")
    case False
    then have "pl_type ev \<notin> {js ''color'', js ''label'', js ''size''}"
      "pl_type ev \<noteq> js ''new_screen''"
      by (auto simp: directive_tags_def)
    with False show ?thesis by (simp add: processPayload_create)
  next
    case True
    then consider "pl_type ev = js ''color''" | "pl_type ev = js ''label''"
      | "pl_type ev = js ''size''" | "pl_type ev = js ''new_screen''"
      | "pl_type ev = js ''clear_all''" | "pl_type ev = js ''hide''"
      | "pl_type ev = js ''remove''"
      | "pl_type ev \<in> {js ''show_app'', js ''hide_app'', js ''confetti''}"
      unfolding directive_tags_def by blast
    then show ?thesis
    proof cases
      case 1
      show ?thesis
      proof (cases "nullish (pl_content ev)")
        case True
        with 1 ne show ?thesis
          by (simp add: processPayload_color applyToPayload_throwing setter_cases)
      next
        case False
        from applyToPayload_returning [of "set_color (pl_content ev)" uuid s] setter_cases(4) [OF False]
        obtain s' where "applyToPayload uuid (set_color (pl_content ev)) s = Inr s'" by blast
        with 1 False show ?thesis by (simp add: processPayload_color)
      qed
    next
      case 2
      show ?thesis
      proof (cases "nullish (pl_content ev)")
        case True
        with 2 ne show ?thesis
          by (simp add: processPayload_label applyToPayload_throwing setter_cases)
      next
        case False
        from applyToPayload_returning [of "set_label (pl_content ev)" uuid s] setter_cases(5) [OF False]
        obtain s' where "applyToPayload uuid (set_label (pl_content ev)) s = Inr s'" by blast
        with 2 False show ?thesis by (simp add: processPayload_label)
      qed
    next
      case 3
      show ?thesis
      proof (cases "nullish (pl_content ev)")
        case True
        with 3 ne show ?thesis
          by (simp add: processPayload_size applyToPayload_throwing setter_cases)
      next
        case False
        from applyToPayload_returning [of "set_size (pl_content ev)" uuid s] setter_cases(6) [OF False]
        obtain s' where "applyToPayload uuid (set_size (pl_content ev)) s = Inr s'" by blast
        with 3 False show ?thesis by (simp add: processPayload_size)
      qed
    next
      case 4
      then show ?thesis
        by (cases "pl_content ev") (simp_all add: processPayload_new_screen nullish_def)
    next
      case 5
      with ne show ?thesis by (simp add: processPayload_clear_all)
    next
      case 6
      from applyToPayload_returning [of set_hidden uuid s]
      obtain s' where "applyToPayload uuid set_hidden s = Inr s'"
        by (auto simp: set_hidden_def)
      with 6 ne show ?thesis by (simp add: processPayload_hide)
    next
      case 7
      with ne show ?thesis by (simp add: processPayload_remove)
    next
      case 8
      with ne show ?thesis by (auto simp: processPayload_ignored)
    qed
  qed
qed

lemma processPayload_returns:
  assumes "pl_type ev \<in> {js ''color'', js ''label'', js ''size'', js ''new_screen''} \<longrightarrow>
    \<not> nullish (pl_content ev)"
  shows "\<exists>s'. processPayload uuid (Some ev) meta timestamp now s = Inr s'"
proof (cases "processPayload uuid (Some ev) meta timestamp now s")
  case (Inl e)
  then have "processPayload uuid (Some ev) meta timestamp now s = Inl TypeError"
    by (cases e) simp
  with assms show ?thesis unfolding processPayload_throws_iff by blast
next
  case (Inr s')
  then show ?thesis by blast
qed

lemma processAll_returns:
  assumes "\<forall>x \<in> set evs.
    case x of
      None \<Rightarrow> False
    | Some ev \<Rightarrow>
        pl_type ev \<in> {js ''color'', js ''label'', js ''size'', js ''new_screen''} \<longrightarrow>
        \<not> nullish (pl_content ev)"
  shows "\<exists>s'. processAll uuid meta timestamp clock i evs s = Inr s'"
  using assms
proof (induction evs arbitrary: i s)
  case Nil
  then show ?case by simp
next
  case (Cons x evs)
  from Cons.prems obtain ev where x: "x = Some ev"
    and h: "pl_type ev \<in> {js ''color'', js ''label'', js ''size'', js ''new_screen''} \<longrightarrow>
      \<not> nullish (pl_content ev)"
    by (cases x) simp_all
  from Cons.prems have t: "\<forall>x \<in> set evs.
    case x of
      None \<Rightarrow> False
    | Some ev \<Rightarrow>
        pl_type ev \<in> {js ''color'', js ''label'', js ''size'', js ''new_screen''} \<longrightarrow>
        \<not> nullish (pl_content ev)"
    by simp
  from processPayload_returns [OF h]
  obtain s1 where "processPayload uuid (Some ev) meta timestamp (clock i) s = Inr s1"
    by blast
  moreover from Cons.IH [OF t] obtain s' where
    "processAll uuid meta timestamp clock (Suc i) evs s1 = Inr s'"
    by blast
  ultimately show ?case using x by simp
qed

text \<open>
  When the loop throws, it is at some element, with the store as the elements before it
  made it; and the other way round.
\<close>

lemma processAll_throws:
  "processAll uuid meta timestamp clock i evs s = Inl (e, s1) \<Longrightarrow>
   \<exists>before x after. evs = before @ x # after
     \<and> processAll uuid meta timestamp clock i before s = Inr s1
     \<and> processPayload uuid x meta timestamp (clock (i + length before)) s1 = Inl e"
proof (induction evs arbitrary: i s)
  case Nil
  then show ?case by simp
next
  case (Cons y evs)
  show ?case
  proof (cases "processPayload uuid y meta timestamp (clock i) s")
    case (Inl e')
    with Cons.prems have "e' = e" "s1 = s" by simp_all
    with Inl have "y # evs = [] @ y # evs
      \<and> processAll uuid meta timestamp clock i [] s = Inr s1
      \<and> processPayload uuid y meta timestamp (clock (i + length ([] :: RayPayload option list))) s1
          = Inl e"
      by simp
    then show ?thesis by blast
  next
    case (Inr s')
    with Cons.prems have "processAll uuid meta timestamp clock (Suc i) evs s' = Inl (e, s1)"
      by simp
    from Cons.IH [OF this] obtain before x after where
      "evs = before @ x # after"
      "processAll uuid meta timestamp clock (Suc i) before s' = Inr s1"
      "processPayload uuid x meta timestamp (clock (Suc i + length before)) s1 = Inl e"
      by blast
    with Inr have "y # evs = (y # before) @ x # after
      \<and> processAll uuid meta timestamp clock i (y # before) s = Inr s1
      \<and> processPayload uuid x meta timestamp (clock (i + length (y # before))) s1 = Inl e"
      by simp
    then show ?thesis by blast
  qed
qed

lemma processAll_throws_at:
  assumes "processAll uuid meta timestamp clock i before s = Inr s1"
    and "processPayload uuid x meta timestamp (clock (i + length before)) s1 = Inl e"
  shows "processAll uuid meta timestamp clock i (before @ x # after) s = Inl (e, s1)"
  using assms by (simp add: processAll_append)

lemma processPayload_notifications:
  assumes "processPayload uuid x meta timestamp now s = Inr s'"
  shows "notifications s' = notifications s"
proof -
  from processPayload_event [OF assms] obtain ev where x: "x = Some ev" ..
  show ?thesis
  proof (cases "pl_type ev \<in> directive_tags")
    case True
    from processPayload_directive [OF True assms [unfolded x]] show ?thesis by simp
  next
    case False
    with assms x show ?thesis by (auto simp: processPayload_create)
  qed
qed

lemma processAll_notifications:
  "notifications (final (processAll uuid meta timestamp clock i evs s)) = notifications s"
proof (induction evs arbitrary: i s)
  case Nil
  then show ?case by simp
next
  case (Cons x evs)
  show ?case
  proof (cases "processPayload uuid x meta timestamp (clock i) s")
    case (Inl e)
    then show ?thesis by simp
  next
    case (Inr s')
    with Cons.IH [of "Suc i" s'] processPayload_notifications [OF Inr] show ?thesis by simp
  qed
qed

text \<open>
  Claim C1, as amended. \<open>addRequest\<close> returns whenever no element of the batch is
  \<open>null\<close> and no \<open>color\<close>, \<open>label\<close>, \<open>size\<close> or \<open>new_screen\<close> event of the batch
  has \<open>null\<close> or missing content. An element throws a TypeError exactly when it is
  \<open>null\<close>, or it is an event whose content is \<open>null\<close> or missing and which is a
  \<open>new_screen\<close> event, or a \<open>color\<close>, \<open>label\<close> or \<open>size\<close> event whose
  correlation id some entry carries. \<open>addRequest\<close> throws exactly when it comes to an
  element that throws, and it leaves the store as the elements before that one made it:
  they have been applied, the elements after it are not processed, the history is not
  trimmed and nobody is notified. No event is skipped for the shape of its content: an
  entry-creating event stores its content as it is.
\<close>

theorem addRequest_throws_only_on_nullish_directive:
  "((\<forall>x \<in> set (rq_payloads request).
        case x of
          None \<Rightarrow> False
        | Some ev \<Rightarrow>
            pl_type ev \<in> {js ''color'', js ''label'', js ''size'', js ''new_screen''} \<longrightarrow>
            \<not> nullish (pl_content ev)) \<longrightarrow>
      (\<exists>s'. addRequest timestamp clock request s = Inr s'))
   \<and> (processPayload uuid x meta timestamp now s = Inl TypeError \<longleftrightarrow>
        (case x of
           None \<Rightarrow> True
         | Some ev \<Rightarrow>
             nullish (pl_content ev) \<and>
             (pl_type ev = js ''new_screen'' \<or>
              (pl_type ev \<in> {js ''color'', js ''label'', js ''size''} \<and>
               uuid \<in> sp_uuid ` set (payloads s)))))
   \<and> (addRequest timestamp clock request s = Inl (e, s1) \<longleftrightarrow>
        (\<exists>before y after.
           rq_payloads request = before @ y # after
           \<and> processAll (rq_uuid request) (rq_meta request) timestamp clock 0 before s = Inr s1
           \<and> processPayload (rq_uuid request) y (rq_meta request) timestamp
                (clock (length before)) s1 = Inl e))
   \<and> (addRequest timestamp clock request s = Inl (e, s1) \<longrightarrow>
        notifications s1 = notifications s)
   \<and> (pl_type ev \<notin> directive_tags \<longrightarrow>
        processPayload uuid (Some ev) meta timestamp now s =
          Inr (s \<lparr> payloads := payloads s @ [new_entry uuid ev meta timestamp now s],
                 payloadCounter := Suc (payloadCounter s) \<rparr>)
        \<and> sp_content (new_entry uuid ev meta timestamp now s) = pl_content ev)"
proof -
  let ?all = "processAll (rq_uuid request) (rq_meta request) timestamp clock 0"
  have a: "(\<forall>x \<in> set (rq_payloads request).
        case x of
          None \<Rightarrow> False
        | Some ev \<Rightarrow>
            pl_type ev \<in> {js ''color'', js ''label'', js ''size'', js ''new_screen''} \<longrightarrow>
            \<not> nullish (pl_content ev)) \<longrightarrow>
      (\<exists>s'. addRequest timestamp clock request s = Inr s')"
  proof
    assume "\<forall>x \<in> set (rq_payloads request).
        case x of
          None \<Rightarrow> False
        | Some ev \<Rightarrow>
            pl_type ev \<in> {js ''color'', js ''label'', js ''size'', js ''new_screen''} \<longrightarrow>
            \<not> nullish (pl_content ev)"
    from processAll_returns [OF this] obtain s2 where
      "?all (rq_payloads request) s = Inr s2"
      by blast
    then show "\<exists>s'. addRequest timestamp clock request s = Inr s'"
      by (simp add: addRequest_def)
  qed
  have b: "processPayload uuid x meta timestamp now s = Inl TypeError \<longleftrightarrow>
        (case x of
           None \<Rightarrow> True
         | Some ev \<Rightarrow>
             nullish (pl_content ev) \<and>
             (pl_type ev = js ''new_screen'' \<or>
              (pl_type ev \<in> {js ''color'', js ''label'', js ''size''} \<and>
               uuid \<in> sp_uuid ` set (payloads s))))"
  proof (cases x)
    case None
    then show ?thesis by (simp add: processPayload_null)
  next
    case (Some ev')
    with processPayload_throws_iff [of uuid ev' meta timestamp now s] show ?thesis by simp
  qed
  have thrown: "addRequest timestamp clock request s = Inl (e, s1) \<longleftrightarrow>
      ?all (rq_payloads request) s = Inl (e, s1)"
    by (cases "?all (rq_payloads request) s") (simp_all add: addRequest_def)
  have c: "addRequest timestamp clock request s = Inl (e, s1) \<longleftrightarrow>
        (\<exists>before y after.
           rq_payloads request = before @ y # after
           \<and> ?all before s = Inr s1
           \<and> processPayload (rq_uuid request) y (rq_meta request) timestamp
                (clock (length before)) s1 = Inl e)"
  proof
    assume "addRequest timestamp clock request s = Inl (e, s1)"
    with thrown have "?all (rq_payloads request) s = Inl (e, s1)" by simp
    from processAll_throws [OF this]
    show "\<exists>before y after.
           rq_payloads request = before @ y # after
           \<and> ?all before s = Inr s1
           \<and> processPayload (rq_uuid request) y (rq_meta request) timestamp
                (clock (length before)) s1 = Inl e"
      by simp
  next
    assume "\<exists>before y after.
           rq_payloads request = before @ y # after
           \<and> ?all before s = Inr s1
           \<and> processPayload (rq_uuid request) y (rq_meta request) timestamp
                (clock (length before)) s1 = Inl e"
    then obtain before y after where
      split: "rq_payloads request = before @ y # after"
      and run: "?all before s = Inr s1"
      and throw: "processPayload (rq_uuid request) y (rq_meta request) timestamp
                (clock (length before)) s1 = Inl e"
      by blast
    from processAll_throws_at [of _ _ _ _ 0, OF run] throw
    have "?all (before @ y # after) s = Inl (e, s1)" by simp
    with split thrown show "addRequest timestamp clock request s = Inl (e, s1)" by simp
  qed
  have d: "addRequest timestamp clock request s = Inl (e, s1) \<longrightarrow>
        notifications s1 = notifications s"
  proof
    assume "addRequest timestamp clock request s = Inl (e, s1)"
    with thrown have "?all (rq_payloads request) s = Inl (e, s1)" by simp
    with processAll_notifications
      [of "rq_uuid request" "rq_meta request" timestamp clock 0 "rq_payloads request" s]
    show "notifications s1 = notifications s" by simp
  qed
  have f: "pl_type ev \<notin> directive_tags \<longrightarrow>
        processPayload uuid (Some ev) meta timestamp now s =
          Inr (s \<lparr> payloads := payloads s @ [new_entry uuid ev meta timestamp now s],
                 payloadCounter := Suc (payloadCounter s) \<rparr>)
        \<and> sp_content (new_entry uuid ev meta timestamp now s) = pl_content ev"
    by (simp add: processPayload_create new_entry_def)
  show ?thesis by (intro conjI a b c d f)
qed

text \<open>
  A \<open>new_screen\<close> event with \<open>null\<close> content makes \<open>addRequest\<close> throw: the event
  before it has been applied, the one after it is never processed, and nobody is
  notified. A log event with \<open>null\<close> content is stored, not skipped.
\<close>

theorem addRequest_throws_counterexample:
  "addRequest 1700000000000 (\<lambda>i. 1700000000000)
      \<lparr> rq_uuid = js ''abc'', rq_payloads = [Some demo_log, Some null_new_screen, Some demo_log],
        rq_meta = Undefined \<rparr> new_store = Inl (TypeError, one_log_store)
   \<and> length (payloads one_log_store) = 1
   \<and> notifications one_log_store = 0
   \<and> map sp_content (getAllPayloads (final (addRequest 1700000000000 (\<lambda>i. 1700000000000)
        \<lparr> rq_uuid = js ''abc'', rq_payloads = [Some null_log], rq_meta = Undefined \<rparr> new_store))) =
      [Null]"
proof -
  have t: "processPayload (js ''abc'') (Some null_new_screen) Undefined 1700000000000 1700000000000
      one_log_store = Inl TypeError"
    by (simp add: processPayload_new_screen null_new_screen_def)
  have a: "addRequest 1700000000000 (\<lambda>i. 1700000000000)
      \<lparr> rq_uuid = js ''abc'', rq_payloads = [Some demo_log, Some null_new_screen, Some demo_log],
        rq_meta = Undefined \<rparr> new_store = Inl (TypeError, one_log_store)"
    by (simp add: addRequest_def one_log_store_def [symmetric] t)
  have b: "length (payloads one_log_store) = 1" "notifications one_log_store = 0"
    by (simp_all add: one_log_store_def new_store_def)
  have "pl_type null_log \<notin> directive_tags"
    by (simp add: null_log_def log_not_directive)
  then have c: "map sp_content (getAllPayloads (final (addRequest 1700000000000 (\<lambda>i. 1700000000000)
        \<lparr> rq_uuid = js ''abc'', rq_payloads = [Some null_log], rq_meta = Undefined \<rparr> new_store))) =
      [Null]"
    by (simp add: addRequest_def processPayload_create trim_def MAX_PAYLOADS_def notify_def
        getAllPayloads_def new_store_def new_entry_def null_log_def)
  show ?thesis by (intro conjI a b c)
qed

text \<open>
  A batch of three events whose contents have the wrong shape, none of them \<open>null\<close>:
  the call returns, the colour and the screen become \<open>undefined\<close>, and the log entry
  is stored with its \<open>null\<close> content. A batch with a \<open>null\<close> element between two log
  events: the call throws with the first log entry stored, the second one not, and no
  notification.
\<close>

theorem addRequest_throws_only_on_nullish_directive_witness:
  "\<not> isl (addRequest 1700000000500 (\<lambda>i. 1700000000500) odd_batch demo_store)
   \<and> map sp_color (getAllPayloads (final
        (addRequest 1700000000500 (\<lambda>i. 1700000000500) odd_batch demo_store))) =
      [Undefined, Undefined, Undefined, Undefined]
   \<and> getCurrentScreen (final
        (addRequest 1700000000500 (\<lambda>i. 1700000000500) odd_batch demo_store)) = Undefined
   \<and> map sp_content (getAllPayloads (final
        (addRequest 1700000000500 (\<lambda>i. 1700000000500) odd_batch demo_store))) =
      [Obj [(js ''values'', Arr [Str (js ''hello''), Num 42])],
       Obj [(js ''values'', Arr [Str (js ''hello''), Num 42])],
       Obj [(js ''values'', Arr [Str (js ''hello''), Num 42])], Null]
   \<and> addRequest 1700000000000 (\<lambda>i. 1700000000000) null_batch new_store =
        Inl (TypeError, one_log_store)
   \<and> map sp_type (payloads one_log_store) = [js ''log'']
   \<and> notifications one_log_store = notifications new_store"
proof -
  have ok: "\<forall>x \<in> set (rq_payloads odd_batch).
        case x of
          None \<Rightarrow> False
        | Some ev \<Rightarrow>
            pl_type ev \<in> {js ''color'', js ''label'', js ''size'', js ''new_screen''} \<longrightarrow>
            \<not> nullish (pl_content ev)"
    by (simp add: odd_batch_def nullish_def null_log_def js_def)
  with addRequest_throws_only_on_nullish_directive
    [of odd_batch 1700000000500 "\<lambda>i. 1700000000500" demo_store]
  obtain s' where s': "addRequest 1700000000500 (\<lambda>i. 1700000000500) odd_batch demo_store = Inr s'"
    by blast
  then have a: "\<not> isl (addRequest 1700000000500 (\<lambda>i. 1700000000500) odd_batch demo_store)"
    by simp
  have m: "most_recent_match (js ''abc'') (payloads demo_store) 1"
    by (simp add: most_recent_match_def demo_store_def demo_entry_def js_def)
  have col: "processPayload (js ''abc'')
      (Some \<lparr> pl_type = js ''color'', pl_content = Num 5, pl_origin = Undefined \<rparr>) Undefined
      1700000000500 1700000000500 demo_store = Inr demo_store"
    using m by (simp add: processPayload_color applyToPayload_match set_color_def)
      (simp add: demo_store_def demo_entry_def)
  have scr: "\<And>s. processPayload (js ''abc'')
      (Some \<lparr> pl_type = js ''new_screen'', pl_content = Str (js ''x''), pl_origin = Undefined \<rparr>)
      Undefined 1700000000500 1700000000500 s = Inr (s \<lparr> currentScreen := Undefined \<rparr>)"
    by (simp add: processPayload_new_screen js_def)
  have lg: "pl_type null_log \<notin> directive_tags"
    by (simp add: null_log_def log_not_directive)
  have run: "final (addRequest 1700000000500 (\<lambda>i. 1700000000500) odd_batch demo_store) =
      notify (demo_store \<lparr> currentScreen := Undefined,
        payloads := payloads demo_store @
          [new_entry (js ''abc'') null_log Undefined 1700000000500 1700000000500
             (demo_store \<lparr> currentScreen := Undefined \<rparr>)],
        payloadCounter := Suc (payloadCounter demo_store) \<rparr>)"
    by (simp add: addRequest_def odd_batch_def col scr processPayload_create lg trim_def
        MAX_PAYLOADS_def)
      (simp add: demo_store_def)
  have b: "map sp_color (getAllPayloads (final
        (addRequest 1700000000500 (\<lambda>i. 1700000000500) odd_batch demo_store))) =
      [Undefined, Undefined, Undefined, Undefined]"
    unfolding run by (simp add: getAllPayloads_def notify_def demo_store_def demo_entry_def new_entry_def)
  have c: "getCurrentScreen (final
        (addRequest 1700000000500 (\<lambda>i. 1700000000500) odd_batch demo_store)) = Undefined"
    unfolding run by (simp add: getCurrentScreen_def notify_def)
  have d: "map sp_content (getAllPayloads (final
        (addRequest 1700000000500 (\<lambda>i. 1700000000500) odd_batch demo_store))) =
      [Obj [(js ''values'', Arr [Str (js ''hello''), Num 42])],
       Obj [(js ''values'', Arr [Str (js ''hello''), Num 42])],
       Obj [(js ''values'', Arr [Str (js ''hello''), Num 42])], Null]"
    unfolding run
    by (simp add: getAllPayloads_def notify_def demo_store_def demo_entry_def new_entry_def
        null_log_def)
  have split: "rq_payloads null_batch = [Some demo_log] @ None # [Some demo_log]"
    by (simp add: null_batch_def)
  have before: "processAll (rq_uuid null_batch) (rq_meta null_batch) 1700000000000
      (\<lambda>i. 1700000000000) 0 [Some demo_log] new_store = Inr one_log_store"
    by (simp add: null_batch_def one_log_store_def)
  have throw: "processPayload (rq_uuid null_batch) None (rq_meta null_batch) 1700000000000
      ((\<lambda>i. 1700000000000) (length [Some demo_log])) one_log_store = Inl TypeError"
    by (simp add: processPayload_null)
  from addRequest_throws_only_on_nullish_directive
    [where request = null_batch and timestamp = 1700000000000
      and clock = "\<lambda>i. 1700000000000" and s = new_store and e = TypeError
      and ?s1.0 = one_log_store]
    split before throw
  have thrown: "addRequest 1700000000000 (\<lambda>i. 1700000000000) null_batch new_store =
        Inl (TypeError, one_log_store)"
    by blast
  with addRequest_throws_only_on_nullish_directive
    [where request = null_batch and timestamp = 1700000000000
      and clock = "\<lambda>i. 1700000000000" and s = new_store and e = TypeError
      and ?s1.0 = one_log_store]
  have n: "notifications one_log_store = notifications new_store"
    by blast
  have t: "map sp_type (payloads one_log_store) = [js ''log'']"
    by (simp add: one_log_store_def new_store_def new_entry_def demo_log_def)
  show ?thesis by (intro conjI a b c d thrown t n)
qed

subsection \<open>Order and identifiers\<close>

lemma payloads_trim: "payloads (trim s) = slice_last MAX_PAYLOADS (payloads s)"
  by (simp add: trim_def slice_last_def)

lemma slice_last_small: "length xs \<le> n \<Longrightarrow> slice_last n xs = xs"
  by (simp add: slice_last_def)

lemma length_slice_last: "length (slice_last n xs) \<le> n"
  by (simp add: slice_last_def)

lemma slice_last_append: "slice_last n (slice_last n xs @ ys) = slice_last n (xs @ ys)"
  unfolding slice_last_def by (cases "length xs \<le> n") (auto simp: min_def add.commute)

lemma created_entries_cong:
  "currentScreen s = currentScreen s' \<Longrightarrow> payloadCounter s = payloadCounter s' \<Longrightarrow>
   created_entries s calls = created_entries s' calls"
proof (induction calls arbitrary: s s')
  case Nil
  then show ?case by simp
next
  case (Cons c calls)
  obtain timestamp clock request where c: "c = (timestamp, clock, request)" by (cases c)
  from Cons.prems have "created_entries (s \<lparr> payloadCounter := Suc (payloadCounter s) \<rparr>) calls =
      created_entries (s' \<lparr> payloadCounter := Suc (payloadCounter s') \<rparr>) calls"
    by (intro Cons.IH) simp_all
  with Cons.prems c show ?case by (simp add: new_entry_def)
qed

lemma length_created_entries [simp]: "length (created_entries s calls) = length calls"
  by (induction s calls rule: created_entries.induct) simp_all

lemma single_creation_event:
  assumes "single_creation (timestamp, clock, request)"
  shows "\<exists>ev. rq_payloads request = [Some ev] \<and> pl_type ev \<notin> directive_tags"
proof (cases "rq_payloads request")
  case Nil
  with assms show ?thesis by (simp add: single_creation_def)
next
  case (Cons x xs)
  show ?thesis
  proof (cases x)
    case None
    with Cons assms show ?thesis by (simp add: single_creation_def)
  next
    case (Some ev)
    with Cons assms show ?thesis by (cases xs) (simp_all add: single_creation_def)
  qed
qed

lemma addRequest_single:
  assumes "single_creation (timestamp, clock, request)"
  shows "addRequest timestamp clock request s =
    Inr (notify (trim (s \<lparr> payloads := payloads s @
        [new_entry (rq_uuid request) (the (hd (rq_payloads request))) (rq_meta request) timestamp
           (clock 0) s],
      payloadCounter := Suc (payloadCounter s) \<rparr>)))"
proof -
  from single_creation_event [OF assms]
  obtain ev where ev: "rq_payloads request = [Some ev]" "pl_type ev \<notin> directive_tags"
    by blast
  then show ?thesis by (simp add: addRequest_def processPayload_create)
qed

lemma addRequests_single:
  assumes "\<forall>c \<in> set calls. single_creation c" "length (payloads s) \<le> MAX_PAYLOADS"
  shows "\<exists>s'. addRequests calls s = Inr s'
    \<and> payloads s' = slice_last MAX_PAYLOADS (payloads s @ created_entries s calls)
    \<and> payloadCounter s' = payloadCounter s + length calls
    \<and> currentScreen s' = currentScreen s"
  using assms
proof (induction calls arbitrary: s)
  case Nil
  then show ?case by (simp add: slice_last_small)
next
  case (Cons c calls)
  obtain timestamp clock request where c: "c = (timestamp, clock, request)" by (cases c)
  let ?e = "new_entry (rq_uuid request) (the (hd (rq_payloads request))) (rq_meta request) timestamp
           (clock 0) s"
  let ?s1 = "notify (trim (s \<lparr> payloads := payloads s @ [?e],
      payloadCounter := Suc (payloadCounter s) \<rparr>))"
  from Cons.prems c have run: "addRequest timestamp clock request s = Inr ?s1"
    by (intro addRequest_single) simp
  have p1: "payloads ?s1 = slice_last MAX_PAYLOADS (payloads s @ [?e])"
    by (simp add: notify_def payloads_trim)
  then have len: "length (payloads ?s1) \<le> MAX_PAYLOADS"
    by (simp add: length_slice_last)
  have same: "currentScreen ?s1 = currentScreen s" "payloadCounter ?s1 = Suc (payloadCounter s)"
    by (simp_all add: notify_def trim_def)
  from Cons.prems have "\<forall>c \<in> set calls. single_creation c" by simp
  from Cons.IH [OF this len] obtain s' where
    s': "addRequests calls ?s1 = Inr s'"
      "payloads s' = slice_last MAX_PAYLOADS (payloads ?s1 @ created_entries ?s1 calls)"
      "payloadCounter s' = payloadCounter ?s1 + length calls"
      "currentScreen s' = currentScreen ?s1"
    by blast
  have "created_entries ?s1 calls =
      created_entries (s \<lparr> payloadCounter := Suc (payloadCounter s) \<rparr>) calls"
    by (intro created_entries_cong) (simp_all add: same)
  with s'(2) p1 have "payloads s' = slice_last MAX_PAYLOADS (payloads s @ created_entries s (c # calls))"
    by (simp add: c slice_last_append)
  with s' run same c show ?case by simp
qed

lemma reach_single:
  assumes "reach s ids" "\<forall>c \<in> set calls. single_creation c"
  shows "reach (final (addRequests calls s)) (ids @ map sp_id (created_entries s calls))"
  using assms
proof (induction calls arbitrary: s ids)
  case Nil
  then show ?case by simp
next
  case (Cons c calls)
  obtain timestamp clock request where c: "c = (timestamp, clock, request)" by (cases c)
  from Cons.prems c have "single_creation (timestamp, clock, request)" by simp
  from single_creation_event [OF this]
  obtain ev where ev: "rq_payloads request = [Some ev]" "pl_type ev \<notin> directive_tags"
    by blast
  let ?e = "new_entry (rq_uuid request) ev (rq_meta request) timestamp (clock 0) s"
  let ?s0 = "s \<lparr> payloads := payloads s @ [?e], payloadCounter := Suc (payloadCounter s) \<rparr>"
  let ?s1 = "notify (trim ?s0)"
  from ev have "processPayload (rq_uuid request) (Some ev) (rq_meta request) timestamp (clock 0) s = Inr ?s0"
    by (simp add: processPayload_create)
  from reach.event [OF Cons.prems(1) this] ev have "reach ?s0 (ids @ [sp_id ?e])"
    by simp
  then have r1: "reach ?s1 (ids @ [sp_id ?e])" by (rule reach.finish)
  from Cons.prems c ev have run: "addRequest timestamp clock request s = Inr ?s1"
    using addRequest_single [of timestamp clock request s] by simp
  from Cons.prems have "\<forall>c \<in> set calls. single_creation c" by simp
  from Cons.IH [OF r1 this]
  have "reach (final (addRequests calls ?s1)) ((ids @ [sp_id ?e]) @ map sp_id (created_entries ?s1 calls))" .
  moreover have "created_entries ?s1 calls =
      created_entries (s \<lparr> payloadCounter := Suc (payloadCounter s) \<rparr>) calls"
    by (intro created_entries_cong) (simp_all add: notify_def trim_def)
  ultimately show ?case using run c ev by simp
qed

text \<open>
  Claim C3, as amended. From a reachable store holding at most \<open>MAX_PAYLOADS\<close>
  entries, a sequence of batches of one entry-creating event each returns every time, and
  the all-entries view is then the earlier history followed by the created entries, in
  the order submitted, cut to its last \<open>MAX_PAYLOADS\<close> entries. The identifiers
  issued since the store was created (also those of entries removed or cleared since) are
  pairwise distinct, and their counters are \<open>0, 1, 2, ...\<close> in the order of issue; so
  the identifiers in the view are distinct and their counters increase strictly.
\<close>

theorem creation_order_with_unique_ids:
  assumes "reach s ids" "length (payloads s) \<le> MAX_PAYLOADS" "\<forall>c \<in> set calls. single_creation c"
  shows "\<exists>s'. addRequests calls s = Inr s'
     \<and> getAllPayloads s' = slice_last MAX_PAYLOADS (getAllPayloads s @ created_entries s calls)
     \<and> distinct (ids @ map sp_id (created_entries s calls))
     \<and> map id_counter (ids @ map sp_id (created_entries s calls)) =
         [0..<payloadCounter s + length calls]
     \<and> distinct (map sp_id (getAllPayloads s'))
     \<and> sorted_wrt (<) (map id_counter (map sp_id (getAllPayloads s')))"
proof -
  from addRequests_single [OF assms(3,2)] obtain s' where
    s': "addRequests calls s = Inr s'"
      "payloads s' = slice_last MAX_PAYLOADS (payloads s @ created_entries s calls)"
      "payloadCounter s' = payloadCounter s + length calls"
    by blast
  let ?ids = "ids @ map sp_id (created_entries s calls)"
  from reach_single [OF assms(1,3)] s'(1) have "reach s' ?ids" by simp
  then have "history_ok s' ?ids" by (rule reach_history_ok)
  then have cnt: "map id_counter ?ids = [0..<payloadCounter s + length calls]"
    and sub: "subseq (map sp_id (payloads s')) ?ids"
    by (simp_all add: history_ok_def s'(3))
  from cnt have d: "distinct ?ids" by (rule distinct_counters)
  with sub have d': "distinct (map sp_id (payloads s'))" by (rule subseq_distinct)
  from sub have "subseq (map id_counter (map sp_id (payloads s'))) (map id_counter ?ids)"
    by (rule subseq_map)
  moreover from cnt have "sorted_wrt (<) (map id_counter ?ids)" by (rule sorted_counters)
  ultimately have srt: "sorted_wrt (<) (map id_counter (map sp_id (payloads s')))"
    by (rule sorted_wrt_subseq)
  from s'(1,2) cnt d d' srt show ?thesis by (simp add: getAllPayloads_def)
qed

lemma single_log_call: "single_creation log_call"
  by (simp add: single_creation_def log_call_def demo_log_not_directive)

lemma new_store_empty: "payloads new_store = []" "payloadCounter new_store = 0"
  by (simp_all add: new_store_def)

text \<open>Three batches on a new store.\<close>

theorem creation_order_with_unique_ids_witness:
  "\<not> isl (addRequests [log_call, log_call, log_call] new_store)
   \<and> getAllPayloads (final (addRequests [log_call, log_call, log_call] new_store)) =
       created_entries new_store [log_call, log_call, log_call]
   \<and> map sp_id (created_entries new_store [log_call, log_call, log_call]) =
       [js ''1700000000000-0'', js ''1700000000000-1'', js ''1700000000000-2'']
   \<and> map id_counter (map sp_id (created_entries new_store [log_call, log_call, log_call])) =
       [0, 1, 2]"
proof -
  let ?calls = "[log_call, log_call, log_call]"
  have all: "\<forall>c \<in> set ?calls. single_creation c"
    by (simp add: single_log_call)
  have small: "length (payloads new_store) \<le> MAX_PAYLOADS"
    by (simp add: new_store_empty)
  from creation_order_with_unique_ids [OF reach.start small all] obtain s' where
    s': "addRequests ?calls new_store = Inr s'"
      "getAllPayloads s' = slice_last MAX_PAYLOADS (getAllPayloads new_store @ created_entries new_store ?calls)"
      "map id_counter ([] @ map sp_id (created_entries new_store ?calls)) =
         [0..<payloadCounter new_store + length ?calls]"
    by blast
  from s'(1) have a: "\<not> isl (addRequests ?calls new_store)" by simp
  from s'(1,2) have b: "getAllPayloads (final (addRequests ?calls new_store)) =
       created_entries new_store ?calls"
    by (simp add: getAllPayloads_def new_store_empty slice_last_small MAX_PAYLOADS_def)
  have c: "map sp_id (created_entries new_store ?calls) =
       [js ''1700000000000-0'', js ''1700000000000-1'', js ''1700000000000-2'']"
    by (simp add: log_call_def new_entry_def new_store_empty show_int_def show_nat.simps js_def)
  from s'(3) have d: "map id_counter (map sp_id (created_entries new_store ?calls)) = [0, 1, 2]"
    by (simp add: new_store_empty upt_rec)
  show ?thesis by (intro conjI a b c d)
qed

text \<open>
  The identifiers themselves do not increase, in the order of JavaScript strings: of
  eleven entries created in one millisecond, the eleventh identifier sorts before the
  tenth. And 1001 batches leave 1000 entries: the first one submitted is gone.
\<close>

theorem creation_order_counterexample:
  "map sp_id (getAllPayloads (final (addRequests eleven_calls new_store))) ! 9 =
     js ''1700000000000-9''
   \<and> map sp_id (getAllPayloads (final (addRequests eleven_calls new_store))) ! 10 =
     js ''1700000000000-10''
   \<and> js_less (js ''1700000000000-10'') (js ''1700000000000-9'')
   \<and> length (getAllPayloads (final (addRequests (replicate 1001 log_call) new_store))) = 1000"
proof -
  have small: "length (payloads new_store) \<le> MAX_PAYLOADS"
    by (simp add: new_store_empty)
  have "\<forall>c \<in> set eleven_calls. single_creation c"
    by (simp add: eleven_calls_def single_log_call)
  from addRequests_single [OF this small] obtain s' where
    s': "addRequests eleven_calls new_store = Inr s'"
      "payloads s' = slice_last MAX_PAYLOADS (payloads new_store @ created_entries new_store eleven_calls)"
    by blast
  have ids: "map sp_id (created_entries new_store eleven_calls) =
     [js ''1700000000000-0'', js ''1700000000000-1'', js ''1700000000000-2'', js ''1700000000000-3'',
      js ''1700000000000-4'', js ''1700000000000-5'', js ''1700000000000-6'', js ''1700000000000-7'',
      js ''1700000000000-8'', js ''1700000000000-9'', js ''1700000000000-10'']"
    by (simp add: eleven_calls_def log_call_def new_entry_def new_store_empty show_int_def
        show_nat.simps js_def)
  from s' have "getAllPayloads (final (addRequests eleven_calls new_store)) =
      created_entries new_store eleven_calls"
    by (simp add: getAllPayloads_def new_store_empty slice_last_small MAX_PAYLOADS_def
        eleven_calls_def)
  with ids have a: "map sp_id (getAllPayloads (final (addRequests eleven_calls new_store))) ! 9 =
     js ''1700000000000-9''"
    and b: "map sp_id (getAllPayloads (final (addRequests eleven_calls new_store))) ! 10 =
     js ''1700000000000-10''"
    by simp_all
  have c: "js_less (js ''1700000000000-10'') (js ''1700000000000-9'')"
    by (simp add: js_def)
  have "\<forall>c \<in> set (replicate 1001 log_call). single_creation c"
    by (simp add: single_log_call)
  from addRequests_single [OF this small] obtain s2 where
    s2: "addRequests (replicate 1001 log_call) new_store = Inr s2"
      "payloads s2 = slice_last MAX_PAYLOADS
         (payloads new_store @ created_entries new_store (replicate 1001 log_call))"
    by blast
  then have d: "length (getAllPayloads (final (addRequests (replicate 1001 log_call) new_store))) = 1000"
    by (simp add: getAllPayloads_def slice_last_def MAX_PAYLOADS_def new_store_empty)
  show ?thesis by (intro conjI a b c d)
qed

section \<open>Properties of the renderers\<close>

subsection \<open>getPreviewText, tag by tag\<close>

lemma js_eq_iff [simp]: "js s = js t \<longleftrightarrow> s = t"
proof -
  have "inj (of_char :: char \<Rightarrow> nat)"
    by (rule injI) simp
  then show ?thesis by (simp add: js_def inj_map_eq_map)
qed
























subsection \<open>Truncation\<close>










subsection \<open>Previews\<close>


lemma three_dots: "js ''...'' = [46, 46, 46]"
  by (simp add: js_def)


lemma is_js_space_simps [simp]: "is_js_space 10" "is_js_space 32" "\<not> is_js_space 104"
  "\<not> is_js_space 50" "\<not> is_js_space 82" "\<not> is_js_space 121"
  by (simp_all add: is_js_space_def)


subsection \<open>Language detection\<close>

lemma json_like_not_html: "json_like t \<Longrightarrow> \<not> html_like t"
  by (auto simp: json_like_def html_like_def starts_with_def js_def)

lemma detectLanguage_html:
  "html_like (trim_js str) \<Longrightarrow> detectLanguage str = Some (js ''html'') \<or> detectLanguage str = Some (js ''xml'')"
  by (simp add: detectLanguage_def html_like_def Let_def)

lemma detectLanguage_json:
  assumes "json_like (trim_js str)"
  shows "detectLanguage str = Some (js ''json'')"
proof -
  from assms have "\<not> html_like (trim_js str)" by (rule json_like_not_html)
  with assms show ?thesis
    unfolding detectLanguage_def html_like_def json_like_def Let_def by simp
qed

lemma detectLanguage_keyword:
  assumes "detectLanguage str = Some l" "l \<in> {js ''sql'', js ''php'', js ''javascript'', js ''css''}"
  shows "\<not> html_like (trim_js str) \<and> \<not> json_like (trim_js str)"
proof -
  have ne: "js ''html'' \<notin> {js ''sql'', js ''php'', js ''javascript'', js ''css''}"
    "js ''xml'' \<notin> {js ''sql'', js ''php'', js ''javascript'', js ''css''}"
    "js ''json'' \<notin> {js ''sql'', js ''php'', js ''javascript'', js ''css''}"
    by simp_all
  have h: "\<not> html_like (trim_js str)"
  proof
    assume "html_like (trim_js str)"
    from detectLanguage_html [OF this] assms ne show False by auto
  qed
  have j: "\<not> json_like (trim_js str)"
  proof
    assume "json_like (trim_js str)"
    from detectLanguage_json [OF this] assms ne show False by auto
  qed
  from h j show ?thesis ..
qed

text \<open>The recogniser on a numeral bound, for evaluation.\<close>

lemma json_value_numeral:
  "json_value (numeral k) cs =
     (case dropWhile is_json_space cs of
        [] \<Rightarrow> None
      | c # r \<Rightarrow>
          if c = 123 then
            (case dropWhile is_json_space r of
               [] \<Rightarrow> None
             | d # r' \<Rightarrow> if d = 125 then Some r' else json_members (pred_numeral k) r)
          else if c = 91 then
            (case dropWhile is_json_space r of
               [] \<Rightarrow> None
             | d # r' \<Rightarrow> if d = 93 then Some r' else json_elements (pred_numeral k) r)
          else if c = 34 then json_string r
          else if starts_with (c # r) (js ''true'') then Some (drop 4 (c # r))
          else if starts_with (c # r) (js ''false'') then Some (drop 5 (c # r))
          else if starts_with (c # r) (js ''null'') then Some (drop 4 (c # r))
          else json_number (c # r))"
  by (simp only: numeral_eq_Suc json_value.simps)

lemma json_elements_numeral:
  "json_elements (numeral k) cs =
     (case json_value (pred_numeral k) cs of
        None \<Rightarrow> None
      | Some r \<Rightarrow>
          (case dropWhile is_json_space r of
             [] \<Rightarrow> None
           | c # r' \<Rightarrow> if c = 44 then json_elements (pred_numeral k) r'
                       else if c = 93 then Some r' else None))"
  by (simp only: numeral_eq_Suc json_elements.simps)

lemma json_members_numeral:
  "json_members (numeral k) cs =
     (case dropWhile is_json_space cs of
        [] \<Rightarrow> None
      | q # r \<Rightarrow>
          if q \<noteq> 34 then None
          else (case json_string r of
             None \<Rightarrow> None
           | Some r1 \<Rightarrow>
               (case dropWhile is_json_space r1 of
                  [] \<Rightarrow> None
                | c # r2 \<Rightarrow>
                    if c \<noteq> 58 then None
                    else (case json_value (pred_numeral k) r2 of
                       None \<Rightarrow> None
                     | Some r3 \<Rightarrow>
                         (case dropWhile is_json_space r3 of
                            [] \<Rightarrow> None
                          | d # r4 \<Rightarrow> if d = 44 then json_members (pred_numeral k) r4
                                      else if d = 125 then Some r4 else None)))))"
  by (simp only: numeral_eq_Suc json_members.simps)

lemma json_ok_example: "JSON_parse_ok [123, 34, 97, 34, 58, 49, 125]"
  by (simp add: JSON_parse_ok_def json_value_numeral json_elements_numeral json_members_numeral
      is_json_space_def starts_with_def js_def
      json_number_def json_digits_def is_digit_def)

lemma detect_example: "detectLanguage [123, 34, 97, 34, 58, 49, 125] = Some (js ''json'')"
proof -
  have t: "trim_js [123, 34, 97, 34, 58, 49, 125] = [123, 34, 97, 34, 58, 49, 125]"
    by (simp add: trim_js_def is_js_space_def)
  have "json_like [123, 34, 97, 34, 58, 49, 125]"
    using json_ok_example by (simp add: json_like_def starts_with_def ends_with_def js_def)
  with t show ?thesis by (simp add: detectLanguage_json)
qed

lemma trim_sql_in_json:
  "trim_js sql_in_json = js ''['' @ [34] @ js ''SELECT * FROM users '' @ [34] @ js '']''"
  by (simp add: sql_in_json_def trim_js_def is_js_space_def js_def)

lemma json_like_sql_in_json: "json_like (trim_js sql_in_json)"
  unfolding trim_sql_in_json
  by (simp add: json_like_def JSON_parse_ok_def json_value_numeral json_elements_numeral
      json_members_numeral is_json_space_def starts_with_def ends_with_def js_def)

lemma trim_select: "trim_js (js ''SELECT * FROM users '') = js ''SELECT * FROM users''"
  by (simp add: trim_js_def is_js_space_def js_def)

lemma sql_start_select: "sql_start (js ''SELECT * FROM users'')"
  by (simp add: sql_start_def sql_keywords_def starts_with_ci_def starts_with_def
      followed_by_space_def lower_ascii_def is_js_space_def js_def)

lemma detect_select: "detectLanguage (js ''SELECT * FROM users '') = Some (js ''sql'')"
  unfolding detectLanguage_def trim_select Let_def
  using sql_start_select by (simp add: starts_with_def js_def)

lemma dropWhile_rev_dropWhile:
  "dropWhile P (rev (dropWhile P (rev (dropWhile P s)))) = rev (dropWhile P (rev (dropWhile P s)))"
proof (cases "dropWhile P s")
  case Nil
  then show ?thesis by (simp only: rev.simps dropWhile.simps)
next
  case (Cons x xs)
  then have x: "\<not> P x" by (metis hd_dropWhile list.sel(1) list.distinct(1))
  let ?u = "dropWhile P (rev (x # xs))"
  have "rev (x # xs) = rev xs @ [x]" by simp
  then have "?u = dropWhile P (rev xs) @ [x]"
    using x by (simp add: dropWhile_append)
  then have "rev ?u = x # rev (dropWhile P (rev xs))" by simp
  with x Cons show ?thesis by simp
qed

lemma trim_js_idem: "trim_js (trim_js s) = trim_js s"
proof -
  let ?t = "rev (dropWhile is_js_space (rev (dropWhile is_js_space s)))"
  have a: "dropWhile is_js_space ?t = ?t" by (rule dropWhile_rev_dropWhile)
  have "trim_js ?t = rev (dropWhile is_js_space (rev (dropWhile is_js_space ?t)))"
    by (simp add: trim_js_def)
  also have "\<dots> = rev (dropWhile is_js_space (rev ?t))" by (simp only: a)
  also have "\<dots> = rev (dropWhile is_js_space (dropWhile is_js_space (rev (dropWhile is_js_space s))))"
    by simp
  also have "\<dots> = ?t" by (simp add: dropWhile_idem)
  finally show ?thesis by (simp add: trim_js_def)
qed

lemma detectLanguage_trimmed: "detectLanguage (trim_js str) = detectLanguage str"
  by (simp add: detectLanguage_def trim_js_idem)

text \<open>
  Claim C7. A text that, trimmed, is delimited by braces or brackets and parses as JSON is
  classified as \<open>json\<close>, whatever the keyword checks would say; so is the text
  \<open>{"a":1}\<close>. A text that passes the HTML check is \<open>html\<close> or \<open>xml\<close>. And a
  text classified by a keyword check (\<open>sql\<close>, \<open>php\<close>, \<open>javascript\<close>, \<open>css\<close>)
  has failed both container checks. The classification is that of the trimmed text, and
  of nothing else: \<open>detectLanguage\<close> is a function of its argument.
\<close>

theorem json_decided_before_keywords:
  "(json_like (trim_js str) \<longrightarrow> detectLanguage str = Some (js ''json''))
   \<and> detectLanguage [123, 34, 97, 34, 58, 49, 125] = Some (js ''json'')
   \<and> (html_like (trim_js str) \<longrightarrow>
        detectLanguage str = Some (js ''html'') \<or> detectLanguage str = Some (js ''xml''))
   \<and> (detectLanguage str = Some l \<longrightarrow> l \<in> {js ''sql'', js ''php'', js ''javascript'', js ''css''} \<longrightarrow>
        \<not> html_like (trim_js str) \<and> \<not> json_like (trim_js str))
   \<and> detectLanguage (trim_js str) = detectLanguage str"
proof -
  have a: "json_like (trim_js str) \<longrightarrow> detectLanguage str = Some (js ''json'')"
    by (simp add: detectLanguage_json)
  have c: "html_like (trim_js str) \<longrightarrow>
        detectLanguage str = Some (js ''html'') \<or> detectLanguage str = Some (js ''xml'')"
    by (simp add: detectLanguage_html)
  have d: "detectLanguage str = Some l \<longrightarrow> l \<in> {js ''sql'', js ''php'', js ''javascript'', js ''css''} \<longrightarrow>
        \<not> html_like (trim_js str) \<and> \<not> json_like (trim_js str)"
    using detectLanguage_keyword by blast
  show ?thesis by (intro conjI a detect_example c d detectLanguage_trimmed)
qed

text \<open>
  An array holding an SQL statement is \<open>json\<close>; the statement alone is \<open>sql\<close>.
\<close>

theorem json_decided_before_keywords_witness:
  "json_like (trim_js sql_in_json)
   \<and> detectLanguage sql_in_json = Some (js ''json'')
   \<and> sql_start (js ''SELECT * FROM users'')
   \<and> detectLanguage (js ''SELECT * FROM users '') = Some (js ''sql'')"
proof -
  from json_decided_before_keywords [of sql_in_json] json_like_sql_in_json
  have a: "detectLanguage sql_in_json = Some (js ''json'')" by blast
  show ?thesis by (intro conjI json_like_sql_in_json a sql_start_select detect_select)
qed

end
